theory Spec2Isabelle
  imports Complex_Main "HOL-Library.Multiset"
begin

section \<open>Python values decoded from JSON\<close>

text \<open>
  The upstream body is decoded by \<^verbatim>\<open>resp.json()\<close> into Python values. A Python
  float is either NaN or an ordered value (a finite double or an infinity); the ordered
  values are the type parameter \<open>'f\<close>, a linear order with \<open>0 < 1\<close> in which
  \<open>-0.0\<close> and \<open>0.0\<close> are one element, as Python's \<^verbatim>\<open>==\<close> has it.
  JSON \<^verbatim>\<open>null\<close> and the result of \<^verbatim>\<open>dict.get\<close> on a missing key are the same Python
  value \<^verbatim>\<open>None\<close>, here \<open>JNull\<close>. A dict is an association list read by its first
  matching key.
\<close>

datatype 'f pyfloat = NaN | Num 'f

datatype 'f json =
    JNull
  | JBool bool
  | JInt int
  | JFloat "'f pyfloat"
  | JStr string
  | JArr "'f json list"
  | JObj "(string \<times> 'f json) list"

datatype exn =
    TypeError
  | ValueError
  | OverflowError
  | AttributeError
  | RecursionError
  | HTTPException int string

text \<open>
  What the interpreter and its library do and \<^verbatim>\<open>main.py\<close> does not define: the
  conversion of an int to a float (\<open>None\<close> when it raises OverflowError), of a string
  to a float (\<open>None\<close> when it raises ValueError), the sum of two floats,
  \<^verbatim>\<open>str\<close> of a value that is not a string, and the recursion limit: \<open>frames\<close> is
  the number of frames the interpreter has free while the body of
  \<^verbatim>\<open>_summarize_income_statement\<close> runs. A call of a function written in Python takes one
  frame and raises RecursionError when none is free; the builtins (\<^verbatim>\<open>float\<close>,
  \<^verbatim>\<open>dict.get\<close>, \<^verbatim>\<open>isinstance\<close>, \<^verbatim>\<open>str\<close>, \<^verbatim>\<open>list.append\<close>) take none.
\<close>

record 'f runtime =
  float_of_int :: "int \<Rightarrow> 'f pyfloat option"
  float_of_str :: "string \<Rightarrow> 'f pyfloat option"
  float_add :: "'f pyfloat \<Rightarrow> 'f pyfloat \<Rightarrow> 'f pyfloat"
  repr :: "'f json \<Rightarrow> string"
  frames :: nat

text \<open>Python's \<^verbatim>\<open>bool(x)\<close>, which decides \<^verbatim>\<open>x or y\<close>.\<close>

fun truthy :: "'f::zero json \<Rightarrow> bool" where
  "truthy JNull = False"
| "truthy (JBool b) = b"
| "truthy (JInt i) = (i \<noteq> 0)"
| "truthy (JFloat x) = (x \<noteq> Num 0)"
| "truthy (JStr s) = (s \<noteq> [])"
| "truthy (JArr xs) = (xs \<noteq> [])"
| "truthy (JObj kv) = (kv \<noteq> [])"

definition py_or :: "'f::zero json \<Rightarrow> 'f json \<Rightarrow> 'f json" where
  "py_or a b = (if truthy a then a else b)"

definition dict_get :: "(string \<times> 'f json) list \<Rightarrow> string \<Rightarrow> 'f json" where
  "dict_get kv k = (case map_of kv k of None \<Rightarrow> JNull | Some v \<Rightarrow> v)"

definition has_key :: "(string \<times> 'f json) list \<Rightarrow> string \<Rightarrow> bool" where
  "has_key kv k = (map_of kv k \<noteq> None)"

text \<open>Python's \<^verbatim>\<open>float(x)\<close> and \<^verbatim>\<open>str(x)\<close>.\<close>

fun py_float :: "'f::{zero,one} runtime \<Rightarrow> 'f json \<Rightarrow> exn + 'f pyfloat" where
  "py_float R JNull = Inl TypeError"
| "py_float R (JBool b) = Inr (Num (if b then 1 else 0))"
| "py_float R (JInt i) =
     (case float_of_int R i of None \<Rightarrow> Inl OverflowError | Some x \<Rightarrow> Inr x)"
| "py_float R (JFloat x) = Inr x"
| "py_float R (JStr s) =
     (case float_of_str R s of None \<Rightarrow> Inl ValueError | Some x \<Rightarrow> Inr x)"
| "py_float R (JArr xs) = Inl TypeError"
| "py_float R (JObj kv) = Inl TypeError"

definition py_str :: "'f runtime \<Rightarrow> 'f json \<Rightarrow> string" where
  "py_str R v = (case v of JStr s \<Rightarrow> s | _ \<Rightarrow> repr R v)"

text \<open>Python's comparisons of floats: every comparison with NaN is false.\<close>

fun flt :: "'f::linorder pyfloat \<Rightarrow> 'f pyfloat \<Rightarrow> bool" where
  "flt (Num x) (Num y) = (x < y)"
| "flt _ _ = False"

definition fgt :: "'f::linorder pyfloat \<Rightarrow> 'f pyfloat \<Rightarrow> bool" where
  "fgt a b = flt b a"

fun fge :: "'f::linorder pyfloat \<Rightarrow> 'f pyfloat \<Rightarrow> bool" where
  "fge (Num x) (Num y) = (y \<le> x)"
| "fge _ _ = False"

fun fabs :: "'f::abs pyfloat \<Rightarrow> 'f pyfloat" where
  "fabs NaN = NaN"
| "fabs (Num x) = Num \<bar>x\<bar>"

section \<open>Numeric coercion\<close>

text \<open>\<^verbatim>\<open>_num\<close>: \<^verbatim>\<open>float(x)\<close>, with every exception turned into \<^verbatim>\<open>None\<close>.\<close>

definition num :: "'f::{zero,one} runtime \<Rightarrow> 'f json \<Rightarrow> 'f pyfloat option" where
  "num R x = (case py_float R x of Inl e \<Rightarrow> None | Inr v \<Rightarrow> Some v)"

section \<open>The summarizer\<close>

record 'f totals =
  income :: "'f pyfloat option"
  expenses :: "'f pyfloat option"
  net_profit :: "'f pyfloat option"

record 'f category =
  cat_name :: string
  cat_value :: "'f pyfloat"

record 'f summary =
  summary_notes :: "string list"
  totals :: "'f totals"
  top_income :: "'f category list"
  top_expenses :: "'f category list"

text \<open>
  The totals, lines 71 to 95 of \<^verbatim>\<open>main.py\<close>, for a dict \<open>kv\<close>: the three values
  from \<^verbatim>\<open>data["totals"]\<close> when that is a dict, then the top-level keys for what is
  still \<^verbatim>\<open>None\<close>, then the sum.
\<close>

definition derive_totals :: "'f::{zero,one} runtime \<Rightarrow> (string \<times> 'f json) list \<Rightarrow> 'f totals" where
  "derive_totals R kv =
     (let (income_total, expenses_total, net_total) =
            (case dict_get kv ''totals'' of
               JObj t \<Rightarrow>
                 (num R (dict_get t ''income''),
                  num R (dict_get t ''expenses''),
                  num R (py_or (py_or (dict_get t ''net'') (dict_get t ''profit''))
                               (dict_get t ''net_profit'')))
             | _ \<Rightarrow> (None, None, None));
          income_total =
            (if income_total = None then num R (dict_get kv ''income'') else income_total);
          expenses_total =
            (if expenses_total = None then num R (dict_get kv ''expenses'')
             else expenses_total);
          net_total =
            (if net_total = None
             then num R (py_or (py_or (dict_get kv ''net_profit'') (dict_get kv ''net''))
                               (dict_get kv ''profit''))
             else net_total);
          net_total =
            (case (net_total, income_total, expenses_total) of
               (None, Some i, Some e) \<Rightarrow> Some (float_add R i e)
             | _ \<Rightarrow> net_total)
      in \<lparr>income = income_total, expenses = expenses_total, net_profit = net_total\<rparr>)"

text \<open>The three \<^verbatim>\<open>or\<close> chains of \<^verbatim>\<open>collect_categories\<close> on a dict node.\<close>

definition node_name :: "(string \<times> 'f::zero json) list \<Rightarrow> 'f json" where
  "node_name kv =
     py_or (py_or (py_or (dict_get kv ''name'') (dict_get kv ''label''))
                  (dict_get kv ''account''))
           (dict_get kv ''title'')"

definition node_val :: "'f::{zero,one} runtime \<Rightarrow> (string \<times> 'f json) list \<Rightarrow> 'f pyfloat option" where
  "node_val R kv =
     num R (py_or (py_or (py_or (dict_get kv ''balance'') (dict_get kv ''amount''))
                         (dict_get kv ''value''))
                  (dict_get kv ''total''))"

definition node_children :: "(string \<times> 'f::zero json) list \<Rightarrow> 'f json" where
  "node_children kv =
     py_or (py_or (dict_get kv ''children'') (dict_get kv ''accounts''))
           (dict_get kv ''items'')"

lemma size_dict_get: "dict_get kv k = JNull \<or> size (dict_get kv k) < size (JObj kv)"
proof (cases "map_of kv k")
  case None
  then show ?thesis by (simp add: dict_get_def)
next
  case (Some v)
  then have "(k, v) \<in> set kv" by (rule map_of_SomeD)
  then have "size v < Suc (size_list (size_prod (\<lambda>_. 0) size) kv)"
    by (induction kv) auto
  with Some show ?thesis by (simp add: dict_get_def)
qed

lemma size_node_children:
  "node_children kv = JNull \<or> size (node_children kv) < size (JObj kv)"
  using size_dict_get[of kv "''children''"] size_dict_get[of kv "''accounts''"]
    size_dict_get[of kv "''items''"]
  by (auto simp: node_children_def py_or_def)

text \<open>
  \<^verbatim>\<open>collect_categories\<close> appends to the list \<^verbatim>\<open>cats\<close> of the enclosing function; here
  it takes the list and returns it extended. This is the walk of lines 100 to 116 with
  frames to spare; \<open>collect_categories_within\<close> below is the same walk under the
  recursion limit, and it is the one the summarizer runs.
\<close>

function collect_categories ::
  "'f::{zero,one} runtime \<Rightarrow> 'f json \<Rightarrow> 'f category list \<Rightarrow> 'f category list" where
  "collect_categories R (JObj kv) cats =
     (let name = node_name kv;
          val = node_val R kv;
          cats1 = (case val of
                     None \<Rightarrow> cats
                   | Some v \<Rightarrow>
                       if name \<noteq> JNull
                       then cats @ [\<lparr>cat_name = py_str R name, cat_value = v\<rparr>]
                       else cats);
          ch = node_children kv
      in case ch of
           JArr cs \<Rightarrow> fold (collect_categories R) cs cats1
         | JObj kv' \<Rightarrow> collect_categories R (JObj kv') cats1
         | _ \<Rightarrow> cats1)"
| "collect_categories R (JArr cs) cats = fold (collect_categories R) cs cats"
| "collect_categories R JNull cats = cats"
| "collect_categories R (JBool b) cats = cats"
| "collect_categories R (JInt i) cats = cats"
| "collect_categories R (JFloat x) cats = cats"
| "collect_categories R (JStr s) cats = cats"
  by pat_completeness auto
termination
proof (relation "measure (\<lambda>(R, node, cats). size node)", goal_cases)
  case 1
  show ?case by simp
next
  case (2 R kv cats name val cats1 ch cs c acc)
  have "size c < size (JArr cs)"
    using \<open>c \<in> set cs\<close> by (induction cs) auto
  moreover have "size (JArr cs) < size (JObj kv)"
    using size_node_children[of kv] 2 by auto
  ultimately show ?case by simp
next
  case (3 R kv cats name val cats1 ch kv')
  then show ?case using size_node_children[of kv] by auto
next
  case (4 R cs cats c acc)
  have "size c < size (JArr cs)"
    using \<open>c \<in> set cs\<close> by (induction cs) auto
  then show ?case by simp
qed

declare collect_categories.simps(1) [simp del]

text \<open>
  The loop of lines 119 to 121: every one of the five keys that is in the dict is
  walked, in this order.
\<close>

definition collect_all :: "'f::{zero,one} runtime \<Rightarrow> (string \<times> 'f json) list \<Rightarrow> 'f category list" where
  "collect_all R kv =
     fold (\<lambda>key cats. if has_key kv key then collect_categories R (dict_get kv key) cats
                       else cats)
       [''children'', ''accounts'', ''items'', ''tree'', ''data''] []"

text \<open>
  The walk under the recursion limit. \<open>d\<close> frames are free when
  \<^verbatim>\<open>collect_categories(node)\<close> is called: the call takes one, on a dict the call of
  \<^verbatim>\<open>_num\<close> in line 104 takes a second one for its duration, and every call for a child
  is made with \<open>d - 1\<close> free. A RecursionError leaves the summarizer at once.
\<close>

fun fold_exn :: "('a \<Rightarrow> 'b \<Rightarrow> exn + 'b) \<Rightarrow> 'a list \<Rightarrow> 'b \<Rightarrow> exn + 'b" where
  "fold_exn f [] acc = Inr acc"
| "fold_exn f (x # xs) acc =
     (case f x acc of Inl e \<Rightarrow> Inl e | Inr acc' \<Rightarrow> fold_exn f xs acc')"

lemma fold_exn_cong [fundef_cong]:
  "xs = ys \<Longrightarrow> a = b \<Longrightarrow> (\<And>x acc. x \<in> set ys \<Longrightarrow> f x acc = g x acc)
     \<Longrightarrow> fold_exn f xs a = fold_exn g ys b"
proof (induction ys arbitrary: xs a b)
  case Nil
  then show ?case by simp
next
  case (Cons y ys)
  have "fold_exn f ys c = fold_exn g ys c" for c
    by (rule Cons.IH) (simp_all add: Cons.prems(3))
  then show ?case using Cons.prems by (simp split: sum.splits)
qed

fun collect_categories_within ::
  "'f::{zero,one} runtime \<Rightarrow> nat \<Rightarrow> 'f json \<Rightarrow> 'f category list
     \<Rightarrow> exn + 'f category list" where
  "collect_categories_within R 0 node cats = Inl RecursionError"
| "collect_categories_within R (Suc d) (JObj kv) cats =
     (if d = 0 then Inl RecursionError
      else
       (let name = node_name kv;
            val = node_val R kv;
            cats1 = (case val of
                       None \<Rightarrow> cats
                     | Some v \<Rightarrow>
                         if name \<noteq> JNull
                         then cats @ [\<lparr>cat_name = py_str R name, cat_value = v\<rparr>]
                         else cats);
            ch = node_children kv
        in case ch of
             JArr cs \<Rightarrow> fold_exn (collect_categories_within R d) cs cats1
           | JObj kv' \<Rightarrow> collect_categories_within R d (JObj kv') cats1
           | _ \<Rightarrow> Inr cats1))"
| "collect_categories_within R (Suc d) (JArr cs) cats =
     fold_exn (collect_categories_within R d) cs cats"
| "collect_categories_within R (Suc d) JNull cats = Inr cats"
| "collect_categories_within R (Suc d) (JBool b) cats = Inr cats"
| "collect_categories_within R (Suc d) (JInt i) cats = Inr cats"
| "collect_categories_within R (Suc d) (JFloat x) cats = Inr cats"
| "collect_categories_within R (Suc d) (JStr s) cats = Inr cats"

declare collect_categories_within.simps(2) [simp del]

definition collect_all_within ::
  "'f::{zero,one} runtime \<Rightarrow> (string \<times> 'f json) list \<Rightarrow> exn + 'f category list" where
  "collect_all_within R kv =
     fold_exn (\<lambda>key cats. if has_key kv key
                          then collect_categories_within R (frames R) (dict_get kv key) cats
                          else Inr cats)
       [''children'', ''accounts'', ''items'', ''tree'', ''data''] []"

text \<open>
  \<^verbatim>\<open>sorted(xs, key=key, reverse=True)\<close> on float keys: descending, and elements whose
  keys compare equal keep their order. The keys are compared with \<^verbatim>\<open><\<close> only. The
  insertion below is Python's result wherever \<^verbatim>\<open><\<close> orders the keys, that is when no
  key is NaN.
\<close>

fun insert_desc :: "('a \<Rightarrow> 'f::linorder pyfloat) \<Rightarrow> 'a \<Rightarrow> 'a list \<Rightarrow> 'a list" where
  "insert_desc key x [] = [x]"
| "insert_desc key x (y # ys) =
     (if flt (key x) (key y) then y # insert_desc key x ys else x # y # ys)"

definition sorted_reverse :: "('a \<Rightarrow> 'f::linorder pyfloat) \<Rightarrow> 'a list \<Rightarrow> 'a list" where
  "sorted_reverse key xs = foldr (insert_desc key) xs []"

definition rank_income :: "'f::{linorder,zero} category list \<Rightarrow> 'f category list" where
  "rank_income cats =
     (if cats \<noteq> []
      then take 5 (sorted_reverse cat_value [c \<leftarrow> cats. fgt (cat_value c) (Num 0)])
      else [])"

definition rank_expenses :: "'f::{linorder,zero,abs} category list \<Rightarrow> 'f category list" where
  "rank_expenses cats =
     (if cats \<noteq> []
      then take 5 (sorted_reverse (\<lambda>x. fabs (cat_value x))
                     [c \<leftarrow> cats. flt (cat_value c) (Num 0)])
      else [])"

text \<open>The three notes; the two characters outside ASCII are written as their UTF-8 bytes.\<close>

definition reading_tips :: "string list" where
  "reading_tips =
     [''Income is money in; expenses are money out (often negative).'',
      ''Net Profit '' @ [CHR 0xE2, CHR 0x89, CHR 0x88]
        @ '' Income + Expenses (if expenses are negative, they reduce profit).'',
      ''Numbers are best-effort parsed; Fava'' @ [CHR 0xE2, CHR 0x80, CHR 0x99]
        @ ''s API may change between versions.'']"

text \<open>
  \<^verbatim>\<open>_summarize_income_statement\<close>. Its first statement calls \<^verbatim>\<open>data.get\<close>, which
  raises AttributeError when \<^verbatim>\<open>data\<close> is not a dict. On a dict it calls \<^verbatim>\<open>_num\<close>
  (line 76 or line 81), which needs a free frame, before it walks the categories.
\<close>

definition summarize_income_statement ::
  "'f::{linorder,zero_less_one,abs} runtime \<Rightarrow> 'f json \<Rightarrow> exn + 'f summary" where
  "summarize_income_statement R data =
     (case data of
        JObj kv \<Rightarrow>
          if frames R = 0 then Inl RecursionError
          else
           (case collect_all_within R kv of
              Inl e \<Rightarrow> Inl e
            | Inr cats \<Rightarrow>
                Inr \<lparr>summary_notes = reading_tips, totals = derive_totals R kv,
                     top_income = rank_income cats, top_expenses = rank_expenses cats\<rparr>)
      | _ \<Rightarrow> Inl AttributeError)"

text \<open>The entry a dict node records, if any: lines 102 to 106.\<close>

definition node_entry :: "'f::{zero,one} runtime \<Rightarrow> (string \<times> 'f json) list \<Rightarrow> 'f category list" where
  "node_entry R kv =
     (case node_val R kv of
        None \<Rightarrow> []
      | Some v \<Rightarrow>
          if node_name kv \<noteq> JNull
          then [\<lparr>cat_name = py_str R (node_name kv), cat_value = v\<rparr>] else [])"

section \<open>Fetching and the route\<close>

text \<open>
  What a call into \<^verbatim>\<open>requests\<close> does: it returns, or it raises a
  \<^verbatim>\<open>RequestException\<close> \<open>e\<close>, kept as \<^verbatim>\<open>str(e)\<close> (\<open>Raised\<close>), or it raises
  another exception (\<open>RaisedOther\<close>), which line 34 does not catch. \<^verbatim>\<open>resp.json()\<close>
  raises \<^verbatim>\<open>requests.exceptions.JSONDecodeError\<close>, a \<^verbatim>\<open>RequestException\<close>, on a body
  that is not JSON; it lets through what else the decoder raises, a ValueError on an
  integer literal past the digit limit or a RecursionError on deep nesting.
\<close>

datatype 'a outcome = Returned 'a | Raised string | RaisedOther exn

record 'f response =
  status_code :: int
  json :: "'f json outcome"

text \<open>Decimal text of an int, as an f-string formats a status code.\<close>

function str_nat :: "nat \<Rightarrow> string" where
  "str_nat n =
     (if n < 10 then [''0123456789'' ! n]
      else str_nat (n div 10) @ [''0123456789'' ! (n mod 10)])"
  by pat_completeness auto
termination
  by (relation "measure id") auto

declare str_nat.simps [simp del]

definition str_int :: "int \<Rightarrow> string" where
  "str_int i = (if i < 0 then CHR ''-'' # str_nat (nat (- i)) else str_nat (nat i))"

definition http_get_income_statement ::
  "(string \<Rightarrow> (string \<times> string) list \<Rightarrow> 'f response outcome) \<Rightarrow> string
     \<Rightarrow> (string \<times> string) list \<Rightarrow> exn + 'f json" where
  "http_get_income_statement requests_get api params =
     (case requests_get api params of
        Raised e \<Rightarrow> Inl (HTTPException 502 (''Failed to reach Fava: '' @ e))
      | RaisedOther x \<Rightarrow> Inl x
      | Returned resp \<Rightarrow>
          if status_code resp \<noteq> 200
          then Inl (HTTPException (status_code resp)
                      (''Fava returned '' @ str_int (status_code resp)))
          else (case json resp of
                  Raised e \<Rightarrow> Inl (HTTPException 502 (''Failed to reach Fava: '' @ e))
                | RaisedOther x \<Rightarrow> Inl x
                | Returned body \<Rightarrow> Inr body))"

definition fava_income_api :: "string \<Rightarrow> string \<Rightarrow> string" where
  "fava_income_api base_url ledger_slug =
     rev (dropWhile (\<lambda>c. c = CHR ''/'') (rev base_url)) @ ''/'' @ ledger_slug
       @ ''/api/income_statement''"

record 'f result =
  source :: string
  summary :: "'f summary"
  raw :: "'f json option"

datatype call = Fetch | Summarize

definition query_params ::
  "string option \<Rightarrow> string option \<Rightarrow> string option \<Rightarrow> string option
     \<Rightarrow> (string \<times> string) list" where
  "query_params time interval conversion filter' =
     concat (map (\<lambda>(k, v). case v of None \<Rightarrow> [] | Some s \<Rightarrow> if s \<noteq> [] then [(k, s)] else [])
       [(''time'', time), (''interval'', interval), (''conversion'', conversion),
        (''filter'', filter')])"

text \<open>
  \<^verbatim>\<open>explain_income_statement\<close>: the helpers it called, in order, and what it returns or
  raises. \<^verbatim>\<open>return_raw\<close> is \<open>None\<close> when the request does not give it; its default is
  \<^verbatim>\<open>True\<close>.
\<close>

definition explain_income_statement ::
  "'f::{linorder,zero_less_one,abs} runtime
     \<Rightarrow> (string \<Rightarrow> (string \<times> string) list \<Rightarrow> 'f response outcome) \<Rightarrow> string
     \<Rightarrow> string option \<Rightarrow> string option \<Rightarrow> string option \<Rightarrow> string option \<Rightarrow> bool option
     \<Rightarrow> call list \<times> (exn + 'f result)" where
  "explain_income_statement R requests_get api time interval conversion filter' return_raw =
     (let params = query_params time interval conversion filter'
      in case http_get_income_statement requests_get api params of
           Inl e \<Rightarrow> ([Fetch], Inl e)
         | Inr data \<Rightarrow>
             (case summarize_income_statement R data of
                Inl e \<Rightarrow> ([Fetch, Summarize], Inl e)
              | Inr s \<Rightarrow>
                  ([Fetch, Summarize],
                   Inr \<lparr>source = api, summary = s,
                        raw = (if (case return_raw of None \<Rightarrow> True | Some b \<Rightarrow> b)
                               then Some data else None)\<rparr>)))"

section \<open>A runtime for evaluating examples\<close>

text \<open>
  Floats as exact reals, with no rounding, overflow or infinities; of the strings, only
  the decimal integers convert; \<^verbatim>\<open>str\<close> is spelled out for \<^verbatim>\<open>None\<close>, the booleans and
  the ints; 1000 frames, CPython's default recursion limit, which is more than a running
  server has free.
\<close>

definition digits_value :: "string \<Rightarrow> nat option" where
  "digits_value s =
     (if s \<noteq> [] \<and> list_all (\<lambda>c. c \<in> set ''0123456789'') s
      then Some (foldl (\<lambda>n c. 10 * n + (of_char c - 48)) 0 s)
      else None)"

definition example_float_of_str :: "string \<Rightarrow> real pyfloat option" where
  "example_float_of_str s =
     (case s of
        [] \<Rightarrow> None
      | c # r \<Rightarrow>
          if c = CHR ''-'' then map_option (\<lambda>n. Num (- real n)) (digits_value r)
          else map_option (\<lambda>n. Num (real n)) (digits_value s))"

fun example_add :: "real pyfloat \<Rightarrow> real pyfloat \<Rightarrow> real pyfloat" where
  "example_add (Num x) (Num y) = Num (x + y)"
| "example_add _ _ = NaN"

fun example_repr :: "real json \<Rightarrow> string" where
  "example_repr JNull = ''None''"
| "example_repr (JBool b) = (if b then ''True'' else ''False'')"
| "example_repr (JInt i) = str_int i"
| "example_repr _ = ''...''"

definition example_runtime :: "real runtime" where
  "example_runtime =
     \<lparr>float_of_int = (\<lambda>i. Some (Num (real_of_int i))),
      float_of_str = example_float_of_str,
      float_add = example_add,
      repr = example_repr,
      frames = 1000\<rparr>"

text \<open>Nine categories under \<^verbatim>\<open>children\<close>: seven positive (two of them equal), a zero, a negative.\<close>

definition seven_positive :: "(string \<times> real json) list" where
  "seven_positive =
     [(''children'',
       JArr [JObj [(''name'', JStr ''a''), (''balance'', JInt 3)],
             JObj [(''name'', JStr ''b''), (''balance'', JInt 7)],
             JObj [(''name'', JStr ''c''), (''balance'', JInt 1)],
             JObj [(''name'', JStr ''d''), (''balance'', JInt 7)],
             JObj [(''name'', JStr ''e''), (''balance'', JInt 0)],
             JObj [(''name'', JStr ''f''), (''balance'', JInt 5)],
             JObj [(''name'', JStr ''g''), (''balance'', JInt (-2))],
             JObj [(''name'', JStr ''h''), (''balance'', JInt 2)],
             JObj [(''name'', JStr ''i''), (''balance'', JInt 6)]])]"

text \<open>
  The nesting depth of a value, and \<open>n + 1\<close> lists nested in one another, the JSON text
  \<^verbatim>\<open>[[...[]...]]\<close>.
\<close>

fun json_depth :: "'f json \<Rightarrow> nat" where
  "json_depth (JArr cs) = Suc (fold max (map json_depth cs) 0)"
| "json_depth (JObj kv) = Suc (fold max (map (\<lambda>(k, v). json_depth v) kv) 0)"
| "json_depth _ = 0"

fun nested :: "nat \<Rightarrow> 'f json" where
  "nested 0 = JArr []"
| "nested (Suc n) = JArr [nested n]"




text \<open>A named node whose balance is \<^verbatim>\<open>true\<close>, and a body with that node as its one child.\<close>

definition bonus_node :: "(string \<times> real json) list" where
  "bonus_node = [(''name'', JStr ''Bonus''), (''balance'', JBool True)]"

definition bonus_body :: "(string \<times> real json) list" where
  "bonus_body = [(''children'', JArr [JObj bonus_node])]"

section \<open>Lemmas\<close>

subsection \<open>Sorting\<close>

lemma mset_insert_desc: "mset (insert_desc key x ys) = add_mset x (mset ys)"
  by (induction ys) simp_all

lemma mset_sorted_reverse: "mset (sorted_reverse key xs) = mset xs"
  by (induction xs) (simp_all add: sorted_reverse_def mset_insert_desc)

lemma set_sorted_reverse: "set (sorted_reverse key xs) = set xs"
  using mset_sorted_reverse[of key xs] by (metis set_mset_mset)

lemma fge_trans: "fge a b \<Longrightarrow> fge b c \<Longrightarrow> fge a c"
  by (cases a; cases b; cases c) auto

lemma not_flt_fge: "a \<noteq> NaN \<Longrightarrow> b \<noteq> NaN \<Longrightarrow> \<not> flt a b \<Longrightarrow> fge a b"
  by (cases a; cases b) auto

lemma flt_fge: "flt a b \<Longrightarrow> fge b a"
  by (cases a; cases b) auto

lemma descending_insert_desc:
  assumes "key x \<noteq> NaN" and "\<forall>y \<in> set ys. key y \<noteq> NaN"
    and "sorted_wrt (\<lambda>a b. fge (key a) (key b)) ys"
  shows "sorted_wrt (\<lambda>a b. fge (key a) (key b)) (insert_desc key x ys)"
  using assms
proof (induction ys)
  case Nil
  then show ?case by simp
next
  case (Cons y ys)
  show ?case
  proof (cases "flt (key x) (key y)")
    case True
    have "\<forall>z \<in> set (insert_desc key x ys). fge (key y) (key z)"
    proof
      fix z assume "z \<in> set (insert_desc key x ys)"
      then have "z \<in># mset (insert_desc key x ys)" by simp
      then have "z = x \<or> z \<in> set ys" by (simp add: mset_insert_desc)
      then show "fge (key y) (key z)"
        using True Cons.prems(3) by (auto dest: flt_fge)
    qed
    moreover have "sorted_wrt (\<lambda>a b. fge (key a) (key b)) (insert_desc key x ys)"
      using Cons by simp
    ultimately show ?thesis using True by simp
  next
    case False
    then have xy: "fge (key x) (key y)"
      using Cons.prems(1,2) by (simp add: not_flt_fge)
    then have "\<forall>z \<in> set ys. fge (key x) (key z)"
      using Cons.prems(3) by (auto intro: fge_trans)
    then show ?thesis using False xy Cons.prems(3) by simp
  qed
qed

lemma descending_sorted_reverse:
  "\<forall>y \<in> set xs. key y \<noteq> NaN \<Longrightarrow> sorted_wrt (\<lambda>a b. fge (key a) (key b)) (sorted_reverse key xs)"
proof (induction xs)
  case Nil
  then show ?case by (simp add: sorted_reverse_def)
next
  case (Cons x xs)
  have "sorted_wrt (\<lambda>a b. fge (key a) (key b)) (insert_desc key x (sorted_reverse key xs))"
    using Cons by (intro descending_insert_desc) (simp_all add: set_sorted_reverse)
  then show ?case by (simp add: sorted_reverse_def)
qed

lemma flt_irrefl: "\<not> flt a a"
  by (cases a) auto

lemma filter_key_insert_desc:
  "filter (\<lambda>c. key c = k) (insert_desc key x ys) = filter (\<lambda>c. key c = k) (x # ys)"
  by (induction ys) (auto simp: flt_irrefl)

lemma stable_sorted_reverse:
  "filter (\<lambda>c. key c = k) (sorted_reverse key xs) = filter (\<lambda>c. key c = k) xs"
proof (induction xs)
  case Nil
  then show ?case by (simp add: sorted_reverse_def)
next
  case (Cons x xs)
  have "filter (\<lambda>c. key c = k) (sorted_reverse key (x # xs))
        = filter (\<lambda>c. key c = k) (x # sorted_reverse key xs)"
    by (simp add: sorted_reverse_def filter_key_insert_desc del: filter.simps)
  then show ?case using Cons by simp
qed

lemma rank_income_eq:
  "rank_income cats = take 5 (sorted_reverse cat_value [c \<leftarrow> cats. fgt (cat_value c) (Num 0)])"
  by (simp add: rank_income_def sorted_reverse_def)

lemma rank_expenses_eq:
  "rank_expenses cats =
     take 5 (sorted_reverse (\<lambda>x. fabs (cat_value x)) [c \<leftarrow> cats. flt (cat_value c) (Num 0)])"
  by (simp add: rank_expenses_def sorted_reverse_def)

lemma rank_empty: "rank_income [] = []" "rank_expenses [] = []"
  by (simp_all add: rank_income_def rank_expenses_def)

lemma flt_not_NaN: "flt a b \<Longrightarrow> a \<noteq> NaN \<and> b \<noteq> NaN \<and> fabs a \<noteq> NaN"
  by (cases a; cases b) auto

subsection \<open>Coercion and lookup\<close>

lemma num_py_or_None: "num R a = None \<Longrightarrow> num R b = None \<Longrightarrow> num R (py_or a b) = None"
  by (simp add: py_or_def)

lemma num_JNull: "num R JNull = None"
  by (simp add: num_def)

lemma truthy_True_chain:
  "py_or (JBool True) b = JBool True" "py_or JNull b = b"
  by (simp_all add: py_or_def)

lemma dict_get_absent: "\<not> has_key kv k \<Longrightarrow> dict_get kv k = JNull"
  by (simp add: has_key_def dict_get_def)

subsection \<open>Collecting\<close>

lemma fold_appending:
  assumes "\<And>c acc. c \<in> set cs \<Longrightarrow> f c acc = acc @ f c []"
  shows "fold f cs acc = acc @ fold f cs []"
  using assms
proof (induction cs arbitrary: acc)
  case Nil
  then show ?case by simp
next
  case (Cons c cs)
  have step: "f c acc = acc @ f c []" by (rule Cons.prems) simp
  have IH: "fold f cs a = a @ fold f cs []" for a
    by (rule Cons.IH) (rule Cons.prems, simp)
  have "fold f (c # cs) acc = fold f cs (f c acc)" by simp
  also have "\<dots> = f c acc @ fold f cs []" by (rule IH)
  also have "\<dots> = (acc @ f c []) @ fold f cs []" by (simp only: step[symmetric])
  also have "\<dots> = acc @ fold f cs (f c [])" by (simp only: IH[of "f c []"] append_assoc)
  finally show ?case by simp
qed

lemma dict_get_in: "dict_get kv k = JNull \<or> dict_get kv k \<in> snd ` set kv"
proof (cases "map_of kv k")
  case None
  then show ?thesis by (simp add: dict_get_def)
next
  case (Some v)
  then have "(k, v) \<in> set kv" by (rule map_of_SomeD)
  then have "v \<in> snd ` set kv" by force
  with Some show ?thesis by (simp add: dict_get_def)
qed

lemma node_children_in: "node_children kv = JNull \<or> node_children kv \<in> snd ` set kv"
  using dict_get_in[of kv "''children''"] dict_get_in[of kv "''accounts''"]
    dict_get_in[of kv "''items''"]
  by (auto simp: node_children_def py_or_def)

lemma collect_categories_dict:
  "collect_categories R (JObj kv) cats =
     (case node_children kv of
        JArr cs \<Rightarrow> fold (collect_categories R) cs (cats @ node_entry R kv)
      | JObj kv' \<Rightarrow> collect_categories R (JObj kv') (cats @ node_entry R kv)
      | _ \<Rightarrow> cats @ node_entry R kv)"
proof -
  have "(case node_val R kv of None \<Rightarrow> cats
         | Some v \<Rightarrow> if node_name kv \<noteq> JNull
                     then cats @ [\<lparr>cat_name = py_str R (node_name kv), cat_value = v\<rparr>]
                     else cats)
        = cats @ node_entry R kv"
    by (simp add: node_entry_def split: option.splits)
  then show ?thesis
    by (cases "node_children kv")
      (simp_all add: collect_categories.simps(1)[of R kv cats] Let_def)
qed

lemma collect_categories_appends:
  "collect_categories R node cats = cats @ collect_categories R node []"
proof (induction node arbitrary: cats)
  case (JArr cs)
  have "fold (collect_categories R) cs cats = cats @ fold (collect_categories R) cs []"
    by (rule fold_appending) (rule JArr.IH)
  then show ?case by simp
next
  case (JObj kv)
  have IH: "collect_categories R v acc = acc @ collect_categories R v []"
    if "v \<in> snd ` set kv" for v acc
  proof -
    from that obtain x where x: "x \<in> set kv" "v = snd x" by auto
    have "snd x \<in> Basic_BNFs.snds x" by (cases x) simp
    with x show ?thesis using JObj.IH[of x v acc] by simp
  qed
  let ?e = "node_entry R kv"
  show ?case
  proof (cases "node_children kv")
    case (JArr cs)
    with node_children_in[of kv] have "JArr cs \<in> snd ` set kv" by simp
    from IH[OF this, of "cats @ ?e"] IH[OF this, of "[] @ ?e"]
    show ?thesis by (simp add: collect_categories_dict JArr)
  next
    case (JObj kv')
    with node_children_in[of kv] have "JObj kv' \<in> snd ` set kv" by simp
    from IH[OF this, of "cats @ ?e"] IH[OF this, of "[] @ ?e"]
    show ?thesis by (simp add: collect_categories_dict JObj)
  qed (simp_all add: collect_categories_dict)
qed simp_all

lemma collect_categories_dict_prefix:
  "\<exists>rest. collect_categories R (JObj kv) cats = cats @ node_entry R kv @ rest"
proof (cases "node_children kv")
  case (JArr cs)
  have "fold (collect_categories R) cs (cats @ node_entry R kv)
        = (cats @ node_entry R kv) @ fold (collect_categories R) cs []"
    by (rule fold_appending) (rule collect_categories_appends)
  then show ?thesis by (simp add: collect_categories_dict JArr)
next
  case (JObj kv')
  from collect_categories_appends[of R "JObj kv'" "cats @ node_entry R kv"]
  show ?thesis by (simp add: collect_categories_dict JObj)
qed (simp_all add: collect_categories_dict)

lemma falsy_no_categories:
  "\<not> truthy v \<Longrightarrow> (case v of
        JArr cs \<Rightarrow> fold (collect_categories R) cs acc
      | JObj kv' \<Rightarrow> collect_categories R (JObj kv') acc
      | _ \<Rightarrow> acc) = acc"
  by (cases v)
     (simp_all add: collect_categories_dict node_entry_def node_val_def node_children_def
        dict_get_def py_or_def num_JNull)

lemma node_children_find:
  "node_children kv =
     (case find truthy [dict_get kv ''children'', dict_get kv ''accounts'', dict_get kv ''items'']
      of None \<Rightarrow> dict_get kv ''items'' | Some v \<Rightarrow> v)"
  by (simp add: node_children_def py_or_def)

subsection \<open>The examples, evaluated\<close>

lemma seven_eval:
  "summarize_income_statement example_runtime (JObj seven_positive) =
     Inr \<lparr>summary_notes = reading_tips,
          totals = \<lparr>income = None, expenses = None, net_profit = None\<rparr>,
          top_income =
            [\<lparr>cat_name = ''b'', cat_value = Num 7\<rparr>, \<lparr>cat_name = ''d'', cat_value = Num 7\<rparr>,
             \<lparr>cat_name = ''i'', cat_value = Num 6\<rparr>, \<lparr>cat_name = ''f'', cat_value = Num 5\<rparr>,
             \<lparr>cat_name = ''a'', cat_value = Num 3\<rparr>],
          top_expenses = [\<lparr>cat_name = ''g'', cat_value = Num (- 2)\<rparr>]\<rparr>"
  by code_simp

lemma income_expenses_eval:
  "summarize_income_statement example_runtime
     (JObj [(''income'', JInt 8000), (''expenses'', JInt (- 6000))])
   = Inr \<lparr>summary_notes = reading_tips,
          totals = \<lparr>income = Some (Num 8000), expenses = Some (Num (- 6000)),
                    net_profit = Some (Num 2000)\<rparr>,
          top_income = [], top_expenses = []\<rparr>"
  by code_simp



subsection \<open>The walk under the recursion limit\<close>

lemma fold_exn_enough:
  assumes "\<And>c acc. c \<in> set cs \<Longrightarrow> f c acc = Inr (g c acc)"
  shows "fold_exn f cs acc = Inr (fold g cs acc)"
  using assms by (induction cs arbitrary: acc) simp_all

lemma fold_exn_result:
  assumes "\<And>c acc r. c \<in> set cs \<Longrightarrow> f c acc = Inr r \<Longrightarrow> r = g c acc"
    and "fold_exn f cs acc = Inr r"
  shows "r = fold g cs acc"
  using assms
proof (induction cs arbitrary: acc)
  case Nil
  then show ?case by simp
next
  case (Cons c cs)
  from Cons.prems(2) obtain acc' where a: "f c acc = Inr acc'" "fold_exn f cs acc' = Inr r"
    by (auto split: sum.splits)
  from a(1) have "acc' = g c acc" by (rule Cons.prems(1)[rotated]) simp
  moreover have "r = fold g cs acc'"
    by (rule Cons.IH[OF _ a(2)]) (rule Cons.prems(1), simp_all)
  ultimately show ?case by simp
qed

lemma fold_exn_error:
  assumes "\<And>c acc e. c \<in> set cs \<Longrightarrow> f c acc = Inl e \<Longrightarrow> e = x"
    and "fold_exn f cs acc = Inl e"
  shows "e = x"
  using assms
proof (induction cs arbitrary: acc)
  case Nil
  then show ?case by simp
next
  case (Cons c cs)
  show ?case
  proof (cases "f c acc")
    case (Inl e')
    with Cons.prems(2) have "e' = e" by simp
    with Inl show ?thesis using Cons.prems(1)[of c acc e] by simp
  next
    case (Inr acc')
    with Cons.prems(2) have "fold_exn f cs acc' = Inl e" by simp
    then show ?thesis by (rule Cons.IH[rotated]) (rule Cons.prems(1), simp_all)
  qed
qed

lemma recorded_entry:
  "(case node_val R kv of None \<Rightarrow> cats
    | Some v \<Rightarrow> if node_name kv \<noteq> JNull
                then cats @ [\<lparr>cat_name = py_str R (node_name kv), cat_value = v\<rparr>]
                else cats)
   = cats @ node_entry R kv"
  by (simp add: node_entry_def split: option.splits)

lemma collect_categories_within_dict:
  "collect_categories_within R (Suc (Suc d)) (JObj kv) cats =
     (case node_children kv of
        JArr cs \<Rightarrow> fold_exn (collect_categories_within R (Suc d)) cs (cats @ node_entry R kv)
      | JObj kv' \<Rightarrow> collect_categories_within R (Suc d) (JObj kv') (cats @ node_entry R kv)
      | _ \<Rightarrow> Inr (cats @ node_entry R kv))"
  by (subst collect_categories_within.simps(2), cases "node_children kv")
     (simp_all add: Let_def recorded_entry)

lemma collect_categories_within_one:
  "collect_categories_within R (Suc 0) (JObj kv) cats = Inl RecursionError"
  by (simp add: collect_categories_within.simps(2))

lemma collect_categories_within_result:
  "(collect_categories_within R d node cats = Inr r \<longrightarrow> r = collect_categories R node cats)
   \<and> (collect_categories_within R d node cats = Inl e \<longrightarrow> e = RecursionError)"
proof (induction d arbitrary: node cats r e)
  case 0
  show ?case by simp
next
  case (Suc d)
  note IH = Suc.IH
  have list: "(fold_exn (collect_categories_within R d) cs acc = Inr r
                 \<longrightarrow> r = fold (collect_categories R) cs acc)
              \<and> (fold_exn (collect_categories_within R d) cs acc = Inl e
                 \<longrightarrow> e = RecursionError)" for cs acc
    using fold_exn_result[of cs "collect_categories_within R d" "collect_categories R" acc r]
      fold_exn_error[of cs "collect_categories_within R d" RecursionError acc e] IH
    by blast
  show ?case
  proof (cases node)
    case (JArr cs)
    then show ?thesis using list[of cs cats] by simp
  next
    case (JObj kv)
    show ?thesis
    proof (cases d)
      case 0
      then show ?thesis using JObj by (simp add: collect_categories_within_one)
    next
      case (Suc d')
      show ?thesis
      proof (cases "node_children kv")
        case (JArr cs)
        then show ?thesis
          using list[of cs "cats @ node_entry R kv"] \<open>node = JObj kv\<close>
          unfolding \<open>d = Suc d'\<close>
          by (simp add: collect_categories_within_dict collect_categories_dict)
      next
        case ch: (JObj kv')
        then show ?thesis
          using IH[of "JObj kv'" "cats @ node_entry R kv" r e] \<open>node = JObj kv\<close>
          unfolding \<open>d = Suc d'\<close>
          by (simp add: collect_categories_within_dict collect_categories_dict)
      qed (use JObj Suc in
            \<open>auto simp: collect_categories_within_dict collect_categories_dict\<close>)
    qed
  qed simp_all
qed

lemma fold_max_start: "a \<le> fold max xs (a::nat)"
proof (induction xs arbitrary: a)
  case Nil
  show ?case by simp
next
  case (Cons y ys)
  have "max y a \<le> fold max ys (max y a)" by (rule Cons.IH)
  then show ?case by simp
qed

lemma le_fold_max: "x \<in> set xs \<Longrightarrow> x \<le> fold max xs (a::nat)"
proof (induction xs arbitrary: a)
  case Nil
  then show ?case by simp
next
  case (Cons y ys)
  show ?case
  proof (cases "x = y")
    case True
    have "max y a \<le> fold max ys (max y a)" by (rule fold_max_start)
    with True show ?thesis by simp
  next
    case False
    with Cons.prems have "x \<in> set ys" by simp
    then show ?thesis using Cons.IH by simp
  qed
qed

lemma json_depth_element: "c \<in> set cs \<Longrightarrow> json_depth c < json_depth (JArr cs)"
  using le_fold_max[of "json_depth c" "map json_depth cs" 0] by simp

lemma json_depth_value: "v \<in> snd ` set kv \<Longrightarrow> json_depth v < json_depth (JObj kv)"
proof -
  assume "v \<in> snd ` set kv"
  then have "json_depth v \<in> set (map (\<lambda>(k, v). json_depth v) kv)" by force
  from le_fold_max[OF this, of 0] show ?thesis by simp
qed

lemma collect_categories_within_enough:
  "json_depth node < d \<Longrightarrow>
     collect_categories_within R d node cats = Inr (collect_categories R node cats)"
proof (induction d arbitrary: node cats)
  case 0
  then show ?case by simp
next
  case (Suc d)
  have list: "fold_exn (collect_categories_within R d) cs acc
              = Inr (fold (collect_categories R) cs acc)"
    if "json_depth (JArr cs) \<le> d" for cs acc
  proof (rule fold_exn_enough)
    fix c acc' assume "c \<in> set cs"
    then have "json_depth c < d" using json_depth_element[of c cs] that by simp
    then show "collect_categories_within R d c acc' = Inr (collect_categories R c acc')"
      by (rule Suc.IH)
  qed
  show ?case
  proof (cases node)
    case (JArr cs)
    with Suc.prems have "json_depth (JArr cs) \<le> d" by simp
    from list[OF this] JArr show ?thesis by simp
  next
    case (JObj kv)
    with Suc.prems have kv: "json_depth (JObj kv) \<le> d" by simp
    then obtain d' where d: "d = Suc d'" by (cases d) simp_all
    show ?thesis
    proof (cases "node_children kv")
      case (JArr cs)
      with node_children_in[of kv] have "JArr cs \<in> snd ` set kv" by simp
      then have "json_depth (JArr cs) \<le> d" using json_depth_value[of "JArr cs" kv] kv by simp
      from list[OF this] JArr \<open>node = JObj kv\<close> show ?thesis
        unfolding d by (simp add: collect_categories_within_dict collect_categories_dict)
    next
      case ch: (JObj kv')
      with node_children_in[of kv] have "JObj kv' \<in> snd ` set kv" by simp
      then have "json_depth (JObj kv') < d" using json_depth_value[of "JObj kv'" kv] kv by simp
      from Suc.IH[OF this] ch \<open>node = JObj kv\<close> show ?thesis
        unfolding d by (simp add: collect_categories_within_dict collect_categories_dict)
    qed (use JObj d in \<open>simp_all add: collect_categories_within_dict collect_categories_dict\<close>)
  qed simp_all
qed

lemma nested_too_deep:
  "d \<le> n \<Longrightarrow> collect_categories_within R d (nested n) cats = Inl RecursionError"
proof (induction n arbitrary: d cats)
  case 0
  then show ?case by simp
next
  case (Suc n)
  show ?case
  proof (cases d)
    case 0
    then show ?thesis by simp
  next
    case (Suc d')
    with Suc.prems have "d' \<le> n" by simp
    from Suc.IH[OF this] show ?thesis unfolding \<open>d = Suc d'\<close> by simp
  qed
qed

lemma collect_all_within_result:
  "(collect_all_within R kv = Inr cats \<longrightarrow> cats = collect_all R kv)
   \<and> (collect_all_within R kv = Inl e \<longrightarrow> e = RecursionError)"
proof -
  let ?f = "\<lambda>key cats. if has_key kv key
              then collect_categories_within R (frames R) (dict_get kv key) cats
              else Inr cats"
  let ?g = "\<lambda>key cats. if has_key kv key then collect_categories R (dict_get kv key) cats
              else cats"
  let ?keys = "[''children'', ''accounts'', ''items'', ''tree'', ''data'']"
  have r: "?f key acc = Inr r \<Longrightarrow> r = ?g key acc" for key acc r
    using collect_categories_within_result[of R "frames R" "dict_get kv key" acc r e]
    by (simp split: if_splits)
  have x: "?f key acc = Inl e' \<Longrightarrow> e' = RecursionError" for key acc e'
    using collect_categories_within_result[of R "frames R" "dict_get kv key" acc cats e']
    by (simp split: if_splits)
  have "cats = fold ?g ?keys []" if "fold_exn ?f ?keys [] = Inr cats"
    by (rule fold_exn_result[OF _ that]) (rule r)
  moreover have "e = RecursionError" if "fold_exn ?f ?keys [] = Inl e"
    by (rule fold_exn_error[OF _ that]) (rule x)
  ultimately show ?thesis
    unfolding collect_all_within_def collect_all_def by blast
qed

lemma collect_all_within_enough:
  assumes "\<forall>k \<in> set [''children'', ''accounts'', ''items'', ''tree'', ''data''].
             json_depth (dict_get kv k) < frames R"
  shows "collect_all_within R kv = Inr (collect_all R kv)"
  unfolding collect_all_within_def collect_all_def
proof (rule fold_exn_enough)
  fix key acc
  assume "key \<in> set [''children'', ''accounts'', ''items'', ''tree'', ''data'']"
  with assms have "json_depth (dict_get kv key) < frames R" by blast
  from collect_categories_within_enough[OF this, of R acc]
  show "(if has_key kv key
         then collect_categories_within R (frames R) (dict_get kv key) acc else Inr acc)
        = Inr (if has_key kv key then collect_categories R (dict_get kv key) acc else acc)"
    by simp
qed

lemma summarize_result:
  assumes "summarize_income_statement R (JObj kv) = Inr s"
  shows "s = \<lparr>summary_notes = reading_tips, totals = derive_totals R kv,
              top_income = rank_income (collect_all R kv),
              top_expenses = rank_expenses (collect_all R kv)\<rparr>"
proof -
  from assms obtain cats where c: "collect_all_within R kv = Inr cats"
    and s: "s = \<lparr>summary_notes = reading_tips, totals = derive_totals R kv,
                 top_income = rank_income cats, top_expenses = rank_expenses cats\<rparr>"
    by (auto simp: summarize_income_statement_def split: if_splits sum.splits)
  from c collect_all_within_result[of R kv cats RecursionError]
  have "cats = collect_all R kv" by simp
  with s show ?thesis by simp
qed

lemma summarize_error:
  assumes "summarize_income_statement R (JObj kv) = Inl e"
  shows "e = RecursionError"
  using assms collect_all_within_result[of R kv "[]" e]
  by (auto simp: summarize_income_statement_def split: if_splits sum.splits)

lemma summarize_enough:
  assumes "0 < frames R"
    and "\<forall>k \<in> set [''children'', ''accounts'', ''items'', ''tree'', ''data''].
           json_depth (dict_get kv k) < frames R"
  shows "summarize_income_statement R (JObj kv) =
           Inr \<lparr>summary_notes = reading_tips, totals = derive_totals R kv,
                top_income = rank_income (collect_all R kv),
                top_expenses = rank_expenses (collect_all R kv)\<rparr>"
  using assms(1) collect_all_within_enough[OF assms(2)]
  by (simp add: summarize_income_statement_def)

subsection \<open>What a child node records is collected\<close>

lemma fold_appending_keeps:
  assumes "\<And>c acc. f c acc = acc @ f c []" and "c \<in> set cs"
  shows "set (f c []) \<subseteq> set (fold f cs acc)"
  using assms(2)
proof (induction cs arbitrary: acc)
  case Nil
  then show ?case by simp
next
  case (Cons x xs)
  have app: "fold f xs a = a @ fold f xs []" for a
    by (rule fold_appending) (rule assms(1))
  show ?case
  proof (cases "c = x")
    case True
    have "fold f (x # xs) acc = (acc @ f x []) @ fold f xs []"
      using app[of "f x acc"] assms(1)[of x acc] by simp
    with True show ?thesis by auto
  next
    case False
    with Cons.prems have "c \<in> set xs" by simp
    from Cons.IH[OF this, of "f x acc"] show ?thesis by simp
  qed
qed

lemma collect_all_keeps:
  assumes "key \<in> set [''children'', ''accounts'', ''items'', ''tree'', ''data'']"
    and "has_key data key"
  shows "set (collect_categories R (dict_get data key) []) \<subseteq> set (collect_all R data)"
proof -
  let ?g = "\<lambda>key cats. if has_key data key
               then collect_categories R (dict_get data key) cats else cats"
  have "?g k acc = acc @ ?g k []" for k acc
    using collect_categories_appends[of R "dict_get data k" acc] by simp
  from fold_appending_keeps[of ?g, OF this assms(1), of "[]"] assms(2)
  show ?thesis by (simp only: collect_all_def if_True)
qed

lemma collected_from_child:
  assumes "key \<in> set [''children'', ''accounts'', ''items'', ''tree'', ''data'']"
    and "has_key data key"
    and "dict_get data key = JObj kv \<or> (\<exists>cs. dict_get data key = JArr cs \<and> JObj kv \<in> set cs)"
  shows "set (node_entry R kv) \<subseteq> set (collect_all R data)"
proof -
  from collect_categories_dict_prefix[of R kv "[]"]
  have node: "set (node_entry R kv) \<subseteq> set (collect_categories R (JObj kv) [])" by auto
  have "set (collect_categories R (JObj kv) []) \<subseteq> set (collect_categories R (dict_get data key) [])"
  proof (cases "dict_get data key = JObj kv")
    case True
    then show ?thesis by simp
  next
    case False
    with assms(3) obtain cs where cs: "dict_get data key = JArr cs" "JObj kv \<in> set cs" by blast
    have "collect_categories R c acc = acc @ collect_categories R c []" for c acc
      by (rule collect_categories_appends)
    from fold_appending_keeps[of "collect_categories R", OF this cs(2), of "[]"] cs(1)
    show ?thesis by simp
  qed
  with node collect_all_keeps[OF assms(1,2), of R] show ?thesis by blast
qed

subsection \<open>Ranking\<close>

lemma ranked_or_outranked:
  assumes "sorted_wrt P xs" and "x \<in> set xs"
  shows "x \<in> set (take n xs) \<or> (length (take n xs) = n \<and> (\<forall>y \<in> set (take n xs). P y x))"
proof (cases "x \<in> set (take n xs)")
  case True
  then show ?thesis by simp
next
  case False
  have xs: "xs = take n xs @ drop n xs" by simp
  with assms(2) False have d: "x \<in> set (drop n xs)"
    by (metis Un_iff set_append)
  then have "n < length xs" by (cases "n < length xs") simp_all
  then have l: "length (take n xs) = n" by simp
  from assms(1) have "sorted_wrt P (take n xs @ drop n xs)" by simp
  then have "\<forall>y \<in> set (take n xs). \<forall>z \<in> set (drop n xs). P y z"
    unfolding sorted_wrt_append by blast
  with d l show ?thesis by blast
qed

lemma rank_income_eligible:
  assumes "e \<in> set cs" and "fgt (cat_value e) (Num 0)"
  shows "e \<in> set (rank_income cs)
         \<or> (length (rank_income cs) = 5
            \<and> (\<forall>c \<in> set (rank_income cs). fge (cat_value c) (cat_value e)))"
    and "length [c \<leftarrow> cs. fgt (cat_value c) (Num 0)] \<le> 5 \<Longrightarrow> e \<in> set (rank_income cs)"
proof -
  let ?pos = "[c \<leftarrow> cs. fgt (cat_value c) (Num 0)]"
  let ?S = "sorted_reverse cat_value ?pos"
  have "\<forall>c \<in> set ?pos. cat_value c \<noteq> NaN"
    by (auto simp: fgt_def dest: flt_not_NaN)
  then have sorted: "sorted_wrt (\<lambda>a b. fge (cat_value a) (cat_value b)) ?S"
    by (rule descending_sorted_reverse)
  have mem: "e \<in> set ?S" using assms by (simp add: set_sorted_reverse)
  from ranked_or_outranked[OF sorted mem, of 5]
  show "e \<in> set (rank_income cs)
         \<or> (length (rank_income cs) = 5
            \<and> (\<forall>c \<in> set (rank_income cs). fge (cat_value c) (cat_value e)))"
    by (simp add: rank_income_eq)
  assume "length ?pos \<le> 5"
  moreover have "length ?S = length ?pos"
    using mset_sorted_reverse[of cat_value ?pos] by (metis size_mset)
  ultimately have "take 5 ?S = ?S" by simp
  with mem show "e \<in> set (rank_income cs)" by (simp add: rank_income_eq)
qed

subsection \<open>More examples, evaluated\<close>

lemma bonus_eval:
  "summarize_income_statement example_runtime (JObj bonus_body) =
     Inr \<lparr>summary_notes = reading_tips,
          totals = \<lparr>income = None, expenses = None, net_profit = None\<rparr>,
          top_income = [\<lparr>cat_name = ''Bonus'', cat_value = Num 1\<rparr>],
          top_expenses = []\<rparr>"
  by code_simp

lemma too_deep_eval:
  "summarize_income_statement example_runtime (JObj [(''children'', nested 1000)])
   = Inl RecursionError"
proof -
  have "collect_categories_within example_runtime 1000 (nested 1000) [] = Inl RecursionError"
    by (rule nested_too_deep) simp
  then show ?thesis
    by (simp add: summarize_income_statement_def collect_all_within_def has_key_def
          dict_get_def example_runtime_def)
qed

lemma bonus_collected:
  "collect_all example_runtime bonus_body = [\<lparr>cat_name = ''Bonus'', cat_value = Num 1\<rparr>]"
  by code_simp

section \<open>The claims\<close>

subsection \<open>C1: the summarizer on unexpected shapes\<close>

text \<open>
  C1, as amended. For a dict the summarizer returns a summary and raises nothing when a
  frame is free and each value under \<^verbatim>\<open>children\<close>, \<^verbatim>\<open>accounts\<close>, \<^verbatim>\<open>items\<close>,
  \<^verbatim>\<open>tree\<close>, \<^verbatim>\<open>data\<close> nests less deep than there are frames free; on a dict it raises
  nothing but RecursionError. A summary of a dict with none of the keys \<^verbatim>\<open>totals\<close>,
  \<^verbatim>\<open>income\<close>, \<^verbatim>\<open>expenses\<close>, \<^verbatim>\<open>net_profit\<close>, \<^verbatim>\<open>net\<close>, \<^verbatim>\<open>profit\<close> has the three
  totals \<^verbatim>\<open>None\<close>; a dict with none of the five category keys has a summary, with both
  ranked lists empty, as soon as a frame is free; the empty dict has both.
\<close>

theorem summarize_dict_defensive:
  "(0 < frames R
      \<and> (\<forall>k \<in> set [''children'', ''accounts'', ''items'', ''tree'', ''data''].
            json_depth (dict_get kv k) < frames R)
    \<longrightarrow> (\<exists>s. summarize_income_statement R (JObj kv) = Inr s))
   \<and> (summarize_income_statement R (JObj kv) = Inl e \<longrightarrow> e = RecursionError)
   \<and> (summarize_income_statement R (JObj kv) = Inr s
        \<and> (\<forall>k \<in> set [''totals'', ''income'', ''expenses'', ''net_profit'', ''net'', ''profit''].
              \<not> has_key kv k)
      \<longrightarrow> totals s = \<lparr>income = None, expenses = None, net_profit = None\<rparr>)
   \<and> (0 < frames R
        \<and> (\<forall>k \<in> set [''children'', ''accounts'', ''items'', ''tree'', ''data''].
              \<not> has_key kv k)
      \<longrightarrow> (\<exists>s'. summarize_income_statement R (JObj kv) = Inr s'
                \<and> top_income s' = [] \<and> top_expenses s' = []))
   \<and> (0 < frames R
      \<longrightarrow> (\<exists>s'. summarize_income_statement R (JObj []) = Inr s'
             \<and> totals s' = \<lparr>income = None, expenses = None, net_profit = None\<rparr>
             \<and> top_income s' = [] \<and> top_expenses s' = []))"
proof -
  have 1: "\<exists>s. summarize_income_statement R (JObj kv) = Inr s"
    if "0 < frames R"
      "\<forall>k \<in> set [''children'', ''accounts'', ''items'', ''tree'', ''data''].
            json_depth (dict_get kv k) < frames R"
    using summarize_enough[OF that] by blast
  have 2: "e = RecursionError" if "summarize_income_statement R (JObj kv) = Inl e"
    using that by (rule summarize_error)
  have t: "derive_totals R kv' = \<lparr>income = None, expenses = None, net_profit = None\<rparr>"
    if "\<forall>k \<in> set [''totals'', ''income'', ''expenses'', ''net_profit'', ''net'', ''profit''].
            \<not> has_key kv' k" for kv'
    using that by (simp add: derive_totals_def dict_get_absent py_or_def num_JNull)
  have 3: "totals s = \<lparr>income = None, expenses = None, net_profit = None\<rparr>"
    if "summarize_income_statement R (JObj kv) = Inr s"
      "\<forall>k \<in> set [''totals'', ''income'', ''expenses'', ''net_profit'', ''net'', ''profit''].
            \<not> has_key kv k"
    using summarize_result[OF that(1)] t[OF that(2)] by simp
  have c: "collect_all R kv' = []"
    if "\<forall>k \<in> set [''children'', ''accounts'', ''items'', ''tree'', ''data'']. \<not> has_key kv' k"
    for kv'
    using that by (simp add: collect_all_def)
  have 4: "\<exists>s'. summarize_income_statement R (JObj kv') = Inr s'
                \<and> top_income s' = [] \<and> top_expenses s' = []"
    if "0 < frames R"
      "\<forall>k \<in> set [''children'', ''accounts'', ''items'', ''tree'', ''data'']. \<not> has_key kv' k"
    for kv'
  proof -
    from that(2) have "\<forall>k \<in> set [''children'', ''accounts'', ''items'', ''tree'', ''data''].
            json_depth (dict_get kv' k) < frames R"
      using that(1) by (simp add: dict_get_absent)
    from summarize_enough[OF that(1) this] c[OF that(2)] show ?thesis
      by (simp add: rank_empty)
  qed
  have 5: "\<exists>s'. summarize_income_statement R (JObj []) = Inr s'
             \<and> totals s' = \<lparr>income = None, expenses = None, net_profit = None\<rparr>
             \<and> top_income s' = [] \<and> top_expenses s' = []"
    if "0 < frames R"
  proof -
    have k: "\<forall>k \<in> set [''children'', ''accounts'', ''items'', ''tree'', ''data''].
               json_depth (dict_get ([] :: (string \<times> 'a json) list) k) < frames R"
      using that by (simp add: dict_get_def)
    have "collect_all R [] = []" by (simp add: collect_all_def has_key_def)
    moreover have "derive_totals R [] = \<lparr>income = None, expenses = None, net_profit = None\<rparr>"
      by (rule t) (simp add: has_key_def)
    ultimately show ?thesis using summarize_enough[OF that k] by (simp add: rank_empty)
  qed
  from 1 2 3 4[of kv] 5 show ?thesis by blast
qed

theorem summarize_dict_defensive_witness:
  "0 < frames example_runtime
   \<and> (\<exists>s. summarize_income_statement example_runtime
          (JObj [(''some_unexpected_field'', JStr ''value''),
                 (''nested'', JObj [(''complex'', JObj [(''structure'', JStr ''x'')])])]) = Inr s
        \<and> totals s = \<lparr>income = None, expenses = None, net_profit = None\<rparr>
        \<and> top_income s = [] \<and> top_expenses s = [])
   \<and> (\<exists>s. summarize_income_statement example_runtime (JObj seven_positive) = Inr s)
   \<and> (\<exists>e. summarize_income_statement example_runtime (JObj [(''children'', nested 1000)])
            = Inl e \<and> e = RecursionError)"
proof -
  let ?kv = "[(''some_unexpected_field'', JStr ''value''),
              (''nested'', JObj [(''complex'', JObj [(''structure'', JStr ''x'')])])]
             :: (string \<times> real json) list"
  have f: "0 < frames example_runtime" by (simp add: example_runtime_def)
  have a: "\<forall>k \<in> set [''children'', ''accounts'', ''items'', ''tree'', ''data'']. \<not> has_key ?kv k"
    "\<forall>k \<in> set [''totals'', ''income'', ''expenses'', ''net_profit'', ''net'', ''profit''].
        \<not> has_key ?kv k"
    by (simp_all add: has_key_def)
  from summarize_dict_defensive[of example_runtime ?kv] f a(1)
  obtain s where s: "summarize_income_statement example_runtime (JObj ?kv) = Inr s"
    "top_income s = []" "top_expenses s = []" by blast
  from summarize_dict_defensive[of example_runtime ?kv _ s] s(1) a(2)
  have "totals s = \<lparr>income = None, expenses = None, net_profit = None\<rparr>" by blast
  moreover have "\<forall>k \<in> set [''children'', ''accounts'', ''items'', ''tree'', ''data''].
            json_depth (dict_get seven_positive k) < frames example_runtime"
    by (simp add: seven_positive_def dict_get_def example_runtime_def)
  with summarize_dict_defensive[of example_runtime seven_positive] f
  have "\<exists>s. summarize_income_statement example_runtime (JObj seven_positive) = Inr s"
    by blast
  moreover from summarize_dict_defensive[of example_runtime "[(''children'', nested 1000)]"
      RecursionError] too_deep_eval
  have "\<exists>e. summarize_income_statement example_runtime (JObj [(''children'', nested 1000)])
            = Inl e \<and> e = RecursionError"
    by blast
  ultimately show ?thesis using f s by blast
qed

text \<open>
  The claim as stated fails three times. A JSON value that is not an object, here the
  empty array, makes the summarizer raise AttributeError. An object whose \<^verbatim>\<open>children\<close>
  are 1001 lists nested in one another makes it raise RecursionError with 1000 frames
  free. And a dict with none of the keys \<^verbatim>\<open>totals\<close>, \<^verbatim>\<open>income\<close>, \<^verbatim>\<open>expenses\<close>,
  \<^verbatim>\<open>net_profit\<close> can have a known net profit (from \<^verbatim>\<open>net\<close>) and a ranked entry (from
  \<^verbatim>\<open>children\<close>).
\<close>

theorem summarize_not_defensive:
  "summarize_income_statement example_runtime (JArr []) = Inl AttributeError
   \<and> summarize_income_statement example_runtime (JObj [(''children'', nested 1000)])
     = Inl RecursionError
   \<and> \<not> has_key [(''net'', JInt 5),
                (''children'', JArr [JObj [(''name'', JStr ''A''), (''balance'', JInt 1)]])]
        ''totals''
   \<and> \<not> has_key [(''net'', JInt 5),
                (''children'', JArr [JObj [(''name'', JStr ''A''), (''balance'', JInt 1)]])]
        ''income''
   \<and> \<not> has_key [(''net'', JInt 5),
                (''children'', JArr [JObj [(''name'', JStr ''A''), (''balance'', JInt 1)]])]
        ''expenses''
   \<and> \<not> has_key [(''net'', JInt 5),
                (''children'', JArr [JObj [(''name'', JStr ''A''), (''balance'', JInt 1)]])]
        ''net_profit''
   \<and> map_sum id (\<lambda>s. (net_profit (totals s), top_income s))
        (summarize_income_statement example_runtime
          (JObj [(''net'', JInt 5),
                 (''children'', JArr [JObj [(''name'', JStr ''A''), (''balance'', JInt 1)]])]))
     = Inr (Some (Num 5), [\<lparr>cat_name = ''A'', cat_value = Num 1\<rparr>])"
proof -
  have 1: "summarize_income_statement example_runtime (JArr []) = Inl AttributeError"
    by (simp add: summarize_income_statement_def)
  have 2: "summarize_income_statement example_runtime (JObj [(''children'', nested 1000)])
     = Inl RecursionError"
    by (rule too_deep_eval)
  have 4: "map_sum id (\<lambda>s. (net_profit (totals s), top_income s))
        (summarize_income_statement example_runtime
          (JObj [(''net'', JInt 5),
                 (''children'', JArr [JObj [(''name'', JStr ''A''), (''balance'', JInt 1)]])]))
     = Inr (Some (Num 5), [\<lparr>cat_name = ''A'', cat_value = Num 1\<rparr>])"
    by code_simp
  from 1 2 4 show ?thesis by (simp add: has_key_def)
qed

subsection \<open>C2: name and value of a recorded entry\<close>

text \<open>
  C2. The claim has the first key that is present supply the name and the value. The
  code passes over a key whose value is falsy: a balance of 0 gives way to
  \<^verbatim>\<open>amount\<close>, an empty \<^verbatim>\<open>name\<close> to \<^verbatim>\<open>label\<close>.
\<close>

theorem zero_balance_skipped:
  "collect_categories example_runtime
     (JObj [(''name'', JStr ''Cash''), (''balance'', JInt 0), (''amount'', JInt 5)]) []
   = [\<lparr>cat_name = ''Cash'', cat_value = Num 5\<rparr>]
   \<and> collect_categories example_runtime
     (JObj [(''name'', JStr ''''), (''label'', JStr ''Other''), (''balance'', JInt 3)]) []
   = [\<lparr>cat_name = ''Other'', cat_value = Num 3\<rparr>]
   \<and> collect_categories example_runtime
     (JObj [(''name'', JStr ''Cash''), (''balance'', JInt 0)]) []
   = []
   \<and> collect_categories example_runtime
     (JObj [(''name'', JStr ''Cash''), (''total'', JInt 0)]) []
   = [\<lparr>cat_name = ''Cash'', cat_value = Num 0\<rparr>]"
  by code_simp

subsection \<open>C3: the net total\<close>

text \<open>
  C3. The claim has a present net key win even when it is zero. The code passes over a
  zero: \<^verbatim>\<open>totals.net = 0\<close> gives way to \<^verbatim>\<open>totals.profit\<close>, a top-level
  \<^verbatim>\<open>net_profit = 0\<close> to \<^verbatim>\<open>net\<close>, and, with no later key, to the sum of income and
  expenses or to \<^verbatim>\<open>None\<close>.
\<close>

theorem zero_net_skipped:
  "map_sum id totals (summarize_income_statement example_runtime
     (JObj [(''totals'', JObj [(''net'', JInt 0), (''profit'', JInt 7)])]))
   = Inr \<lparr>income = None, expenses = None, net_profit = Some (Num 7)\<rparr>
   \<and> map_sum id totals (summarize_income_statement example_runtime
     (JObj [(''net_profit'', JInt 0), (''net'', JInt 7)]))
   = Inr \<lparr>income = None, expenses = None, net_profit = Some (Num 7)\<rparr>
   \<and> map_sum id totals (summarize_income_statement example_runtime
     (JObj [(''income'', JInt 100), (''expenses'', JInt (- 40)), (''net_profit'', JInt 0)]))
   = Inr \<lparr>income = Some (Num 100), expenses = Some (Num (- 40)), net_profit = Some (Num 60)\<rparr>
   \<and> map_sum id totals (summarize_income_statement example_runtime
     (JObj [(''totals'', JObj [(''net'', JInt 0)])]))
   = Inr \<lparr>income = None, expenses = None, net_profit = None\<rparr>
   \<and> map_sum id totals (summarize_income_statement example_runtime
     (JObj [(''totals'', JObj [(''net_profit'', JInt 0)])]))
   = Inr \<lparr>income = None, expenses = None, net_profit = Some (Num 0)\<rparr>"
  by code_simp

subsection \<open>C4: the child collection\<close>

text \<open>
  C4, as amended. On a dict node the walk goes on into the first truthy value among those
  of \<^verbatim>\<open>children\<close>, \<^verbatim>\<open>accounts\<close>, \<^verbatim>\<open>items\<close>: into each element when it is a list, into
  the value itself when it is a dict, nowhere otherwise or when none is truthy. It does
  so from the list as it is after the node's own entry, whether the node recorded one or
  not.
\<close>

theorem children_first_truthy:
  "collect_categories R (JObj kv) cats =
     (case find truthy
             [dict_get kv ''children'', dict_get kv ''accounts'', dict_get kv ''items''] of
        Some (JArr cs) \<Rightarrow> fold (collect_categories R) cs (cats @ node_entry R kv)
      | Some (JObj kv') \<Rightarrow> collect_categories R (JObj kv') (cats @ node_entry R kv)
      | _ \<Rightarrow> cats @ node_entry R kv)
   \<and> (node_entry R kv = [] \<or> (\<exists>e. node_entry R kv = [e]))"
proof -
  let ?vs = "[dict_get kv ''children'', dict_get kv ''accounts'', dict_get kv ''items'']"
  have 2: "node_entry R kv = [] \<or> (\<exists>e. node_entry R kv = [e])"
    by (simp add: node_entry_def split: option.splits)
  have 1: "collect_categories R (JObj kv) cats =
     (case find truthy ?vs of
        Some (JArr cs) \<Rightarrow> fold (collect_categories R) cs (cats @ node_entry R kv)
      | Some (JObj kv') \<Rightarrow> collect_categories R (JObj kv') (cats @ node_entry R kv)
      | _ \<Rightarrow> cats @ node_entry R kv)"
  proof (cases "find truthy ?vs")
    case None
    then have "\<not> truthy (dict_get kv ''items'')" by (auto split: if_splits)
    from falsy_no_categories[OF this, where R=R and acc="cats @ node_entry R kv"] None
    show ?thesis
      by (subst collect_categories_dict) (simp add: node_children_find)
  next
    case (Some v)
    then show ?thesis
      by (subst collect_categories_dict) (simp add: node_children_find)
  qed
  from 1 2 show ?thesis by (rule conjI)
qed

theorem children_first_truthy_witness:
  "collect_categories example_runtime
     (JObj [(''name'', JStr ''Assets''), (''children'', JArr []), (''accounts'', JNull),
            (''items'', JObj [(''name'', JStr ''A''), (''balance'', JInt 1)])]) []
   = [\<lparr>cat_name = ''A'', cat_value = Num 1\<rparr>]"
proof -
  have "collect_categories example_runtime
          (JObj [(''name'', JStr ''A''), (''balance'', JInt 1)]) []
        = [\<lparr>cat_name = ''A'', cat_value = Num 1\<rparr>]"
    by code_simp
  then show ?thesis
    using children_first_truthy[of example_runtime
      "[(''name'', JStr ''Assets''), (''children'', JArr []), (''accounts'', JNull),
        (''items'', JObj [(''name'', JStr ''A''), (''balance'', JInt 1)])]" "[]"]
    by (simp add: dict_get_def node_entry_def node_val_def py_or_def num_JNull)
qed

text \<open>
  The claim as stated fails: \<^verbatim>\<open>children\<close> is present and an empty list, and the walk
  goes into \<^verbatim>\<open>accounts\<close>.
\<close>

theorem empty_children_skipped:
  "has_key [(''children'', JArr []),
            (''accounts'', JArr [JObj [(''name'', JStr ''A''), (''balance'', JInt 1)]])]
     ''children''
   \<and> collect_categories example_runtime
       (JObj [(''children'', JArr []),
              (''accounts'', JArr [JObj [(''name'', JStr ''A''), (''balance'', JInt 1)]])]) []
     = [\<lparr>cat_name = ''A'', cat_value = Num 1\<rparr>]"
  by code_simp

subsection \<open>C5: net profit as a sum\<close>

text \<open>
  C5. When income and expenses are known and no net key resolves (neither
  \<^verbatim>\<open>net_profit\<close>, \<^verbatim>\<open>net\<close>, \<^verbatim>\<open>profit\<close> at the top level nor \<^verbatim>\<open>net\<close>, \<^verbatim>\<open>profit\<close>,
  \<^verbatim>\<open>net_profit\<close> in a \<^verbatim>\<open>totals\<close> dict coerces to a float), the net profit is the float
  sum of income and expenses.
\<close>

theorem net_profit_fallback_sum:
  assumes "summarize_income_statement R (JObj kv) = Inr s"
    and "income (totals s) = Some i" and "expenses (totals s) = Some e"
    and "\<forall>k \<in> set [''net_profit'', ''net'', ''profit'']. num R (dict_get kv k) = None"
    and "\<forall>t. dict_get kv ''totals'' = JObj t \<longrightarrow>
           (\<forall>k \<in> set [''net'', ''profit'', ''net_profit'']. num R (dict_get t k) = None)"
  shows "net_profit (totals s) = Some (float_add R i e)"
proof -
  from summarize_result[OF assms(1)] have s: "totals s = derive_totals R kv"
    by simp
  have top: "num R (py_or (py_or (dict_get kv ''net_profit'') (dict_get kv ''net''))
                          (dict_get kv ''profit'')) = None"
    using assms(4) by (simp add: num_py_or_None)
  have sub: "num R (py_or (py_or (dict_get t ''net'') (dict_get t ''profit''))
                          (dict_get t ''net_profit'')) = None"
    if "dict_get kv ''totals'' = JObj t" for t
    using assms(5) that by (simp add: num_py_or_None)
  show ?thesis
    using assms(2,3) top sub unfolding s
    by (cases "dict_get kv ''totals''")
       (auto simp: derive_totals_def Let_def split: if_splits option.splits)
qed

theorem net_profit_fallback_sum_witness:
  "summarize_income_statement example_runtime
     (JObj [(''income'', JInt 8000), (''expenses'', JInt (- 6000))])
   = Inr \<lparr>summary_notes = reading_tips,
          totals = \<lparr>income = Some (Num 8000), expenses = Some (Num (- 6000)),
                    net_profit = Some (Num 2000)\<rparr>,
          top_income = [], top_expenses = []\<rparr>
   \<and> Some (Num 2000) = Some (float_add example_runtime (Num 8000) (Num (- 6000)))"
proof -
  have "net_profit (totals \<lparr>summary_notes = reading_tips,
          totals = \<lparr>income = Some (Num 8000), expenses = Some (Num (- 6000)),
                    net_profit = Some (Num 2000)\<rparr>,
          top_income = [], top_expenses = []\<rparr>)
     = Some (float_add example_runtime (Num 8000) (Num (- 6000)))"
    by (rule net_profit_fallback_sum[OF income_expenses_eval])
       (simp_all add: dict_get_def num_JNull)
  then show ?thesis using income_expenses_eval by simp
qed

subsection \<open>C6: the two failures of the fetch\<close>

text \<open>
  C6, as amended. A response with a status other than 200 raises an HTTPException with
  that status and the message \<^verbatim>\<open>Fava returned\<close> followed by the status; a
  RequestException, from the call or from decoding the body of a 200 response, raises
  one with status 502 and a message that ends with its text; any other exception of the
  call or of the decoding leaves the fetch as it is; status 200 with a body that decodes
  returns the decoded body. Every failure of the fetch is one of these three, and on a
  failure the route raises it after calling the fetch only.
\<close>

theorem fetch_failures:
  "(requests_get api params = Returned resp \<and> status_code resp \<noteq> 200
      \<longrightarrow> http_get_income_statement requests_get api params
          = Inl (HTTPException (status_code resp)
                   (''Fava returned '' @ str_int (status_code resp))))
   \<and> (requests_get api params = Raised cause
        \<or> (requests_get api params = Returned resp \<and> status_code resp = 200
            \<and> json resp = Raised cause)
      \<longrightarrow> http_get_income_statement requests_get api params
          = Inl (HTTPException 502 (''Failed to reach Fava: '' @ cause)))
   \<and> (requests_get api params = RaisedOther x
        \<or> (requests_get api params = Returned resp \<and> status_code resp = 200
            \<and> json resp = RaisedOther x)
      \<longrightarrow> http_get_income_statement requests_get api params = Inl x)
   \<and> (requests_get api params = Returned resp \<and> status_code resp = 200
        \<and> json resp = Returned body
      \<longrightarrow> http_get_income_statement requests_get api params = Inr body)
   \<and> (http_get_income_statement requests_get api params = Inl err
      \<longrightarrow> (\<exists>resp'. requests_get api params = Returned resp' \<and> status_code resp' \<noteq> 200
             \<and> err = HTTPException (status_code resp')
                        (''Fava returned '' @ str_int (status_code resp')))
          \<or> (\<exists>cause'. err = HTTPException 502 (''Failed to reach Fava: '' @ cause')
               \<and> (requests_get api params = Raised cause'
                    \<or> (\<exists>resp'. requests_get api params = Returned resp'
                           \<and> status_code resp' = 200 \<and> json resp' = Raised cause')))
          \<or> (requests_get api params = RaisedOther err
               \<or> (\<exists>resp'. requests_get api params = Returned resp'
                      \<and> status_code resp' = 200 \<and> json resp' = RaisedOther err)))
   \<and> (http_get_income_statement requests_get api
          (query_params time interval conversion filter') = Inl err
      \<longrightarrow> explain_income_statement R requests_get api time interval conversion filter'
            return_raw = ([Fetch], Inl err))"
proof -
  have 5: "(\<exists>resp'. requests_get api params = Returned resp' \<and> status_code resp' \<noteq> 200
             \<and> err = HTTPException (status_code resp')
                        (''Fava returned '' @ str_int (status_code resp')))
          \<or> (\<exists>cause'. err = HTTPException 502 (''Failed to reach Fava: '' @ cause')
               \<and> (requests_get api params = Raised cause'
                    \<or> (\<exists>resp'. requests_get api params = Returned resp'
                           \<and> status_code resp' = 200 \<and> json resp' = Raised cause')))
          \<or> (requests_get api params = RaisedOther err
               \<or> (\<exists>resp'. requests_get api params = Returned resp'
                      \<and> status_code resp' = 200 \<and> json resp' = RaisedOther err))"
    if "http_get_income_statement requests_get api params = Inl err"
    using that
    by (auto simp: http_get_income_statement_def split: outcome.splits if_splits)
  have 6: "explain_income_statement R requests_get api time interval conversion filter'
            return_raw = ([Fetch], Inl err)"
    if "http_get_income_statement requests_get api
          (query_params time interval conversion filter') = Inl err"
    using that by (simp add: explain_income_statement_def)
  have 1: "http_get_income_statement requests_get api params
          = Inl (HTTPException (status_code resp)
                   (''Fava returned '' @ str_int (status_code resp)))"
    if "requests_get api params = Returned resp" "status_code resp \<noteq> 200"
    using that by (simp add: http_get_income_statement_def)
  have 2: "http_get_income_statement requests_get api params
          = Inl (HTTPException 502 (''Failed to reach Fava: '' @ cause))"
    if "requests_get api params = Raised cause
        \<or> (requests_get api params = Returned resp \<and> status_code resp = 200
            \<and> json resp = Raised cause)"
    using that by (auto simp: http_get_income_statement_def)
  have 3: "http_get_income_statement requests_get api params = Inl x"
    if "requests_get api params = RaisedOther x
        \<or> (requests_get api params = Returned resp \<and> status_code resp = 200
            \<and> json resp = RaisedOther x)"
    using that by (auto simp: http_get_income_statement_def)
  have 4: "http_get_income_statement requests_get api params = Inr body"
    if "requests_get api params = Returned resp" "status_code resp = 200"
      "json resp = Returned body"
    using that by (simp add: http_get_income_statement_def)
  show ?thesis
    by (intro conjI impI; (elim conjE)?; (rule 1 2 3 4 5 6; assumption))
qed

theorem fetch_failures_witness:
  "http_get_income_statement
     (\<lambda>url params. Returned \<lparr>status_code = 500, json = Returned (JNull :: real json)\<rparr>)
     ''http://127.0.0.1:5000/example-beancount-file/api/income_statement'' []
   = Inl (HTTPException 500 ''Fava returned 500'')
   \<and> explain_income_statement example_runtime
       (\<lambda>url params. Returned \<lparr>status_code = 500, json = Returned JNull\<rparr>)
       ''http://127.0.0.1:5000/example-beancount-file/api/income_statement''
       None None None None None
     = ([Fetch], Inl (HTTPException 500 ''Fava returned 500''))
   \<and> http_get_income_statement
       (\<lambda>url params. Raised ''Connection failed'' :: real response outcome)
       ''http://127.0.0.1:5000/example-beancount-file/api/income_statement'' []
     = Inl (HTTPException 502 ''Failed to reach Fava: Connection failed'')
   \<and> http_get_income_statement
       (\<lambda>url params. RaisedOther RecursionError :: real response outcome)
       ''http://127.0.0.1:5000/example-beancount-file/api/income_statement'' []
     = Inl RecursionError
   \<and> http_get_income_statement
       (\<lambda>url params. Returned \<lparr>status_code = 200, json = Returned (JObj [] :: real json)\<rparr>)
       ''http://127.0.0.1:5000/example-beancount-file/api/income_statement'' []
     = Inr (JObj [])"
proof -
  have s: "str_int 500 = ''500''" by code_simp
  have q: "query_params None None None None = []" by (simp add: query_params_def)
  let ?api = "''http://127.0.0.1:5000/example-beancount-file/api/income_statement''"
  let ?g500 = "\<lambda>(url :: string) (params :: (string \<times> string) list).
                 Returned \<lparr>status_code = 500, json = Returned (JNull :: real json)\<rparr>"
  let ?g200 = "\<lambda>(url :: string) (params :: (string \<times> string) list).
                 Returned \<lparr>status_code = 200, json = Returned (JObj [] :: real json)\<rparr>"
  let ?gfail = "\<lambda>(url :: string) (params :: (string \<times> string) list).
                 Raised ''Connection failed'' :: real response outcome"
  let ?gother = "\<lambda>(url :: string) (params :: (string \<times> string) list).
                 RaisedOther RecursionError :: real response outcome"
  let ?r500 = "\<lparr>status_code = 500, json = Returned (JNull :: real json)\<rparr>"
  let ?r200 = "\<lparr>status_code = 200, json = Returned (JObj [] :: real json)\<rparr>"
  have "http_get_income_statement ?g500 ?api []
        = Inl (HTTPException (status_code ?r500)
                 (''Fava returned '' @ str_int (status_code ?r500)))"
    by (rule fetch_failures[THEN conjunct1, rule_format]) simp
  then have a: "http_get_income_statement ?g500 ?api []
                = Inl (HTTPException 500 ''Fava returned 500'')"
    using s by simp
  have b: "explain_income_statement example_runtime ?g500 ?api None None None None None
           = ([Fetch], Inl (HTTPException 500 ''Fava returned 500''))"
    by (rule fetch_failures[THEN conjunct2, THEN conjunct2, THEN conjunct2, THEN conjunct2,
          THEN conjunct2, rule_format]) (simp add: q a)
  have "http_get_income_statement ?gfail ?api []
        = Inl (HTTPException 502 (''Failed to reach Fava: '' @ ''Connection failed''))"
    by (rule fetch_failures[THEN conjunct2, THEN conjunct1, rule_format]) simp
  then have c: "http_get_income_statement ?gfail ?api []
           = Inl (HTTPException 502 ''Failed to reach Fava: Connection failed'')"
    by simp
  have e: "http_get_income_statement ?gother ?api [] = Inl RecursionError"
    by (rule fetch_failures[THEN conjunct2, THEN conjunct2, THEN conjunct1, rule_format]) simp
  have d: "http_get_income_statement ?g200 ?api [] = Inr (JObj [])"
    by (rule fetch_failures[where resp = ?r200, THEN conjunct2, THEN conjunct2,
          THEN conjunct2, THEN conjunct1, rule_format]) simp
  from a b c d e show ?thesis by simp
qed

text \<open>
  The claim as stated fails: a 200 response whose body makes the decoder raise a
  ValueError, which is no RequestException, leaves the fetch with that ValueError,
  neither of the two classified failures.
\<close>

theorem fetch_unclassified:
  "http_get_income_statement
     (\<lambda>url params. Returned \<lparr>status_code = 200, json = RaisedOther ValueError\<rparr>
        :: real response outcome)
     ''http://127.0.0.1:5000/example-beancount-file/api/income_statement'' []
   = Inl ValueError
   \<and> explain_income_statement example_runtime
       (\<lambda>url params. Returned \<lparr>status_code = 200, json = RaisedOther ValueError\<rparr>)
       ''http://127.0.0.1:5000/example-beancount-file/api/income_statement''
       None None None None None
     = ([Fetch], Inl ValueError)"
  by (simp add: http_get_income_statement_def explain_income_statement_def query_params_def)

subsection \<open>C7: the ranked lists\<close>

text \<open>
  C7. For a dict, \<open>top_income\<close> is the first five of a list \<open>inc\<close> that holds exactly
  the collected entries with value above 0 (as a multiset), is descending by value, and
  keeps entries of equal value in the order they were collected; \<open>top_expenses\<close> is
  the first five of such a list of the entries with value below 0, descending by absolute
  value. An entry whose value is 0 or NaN is in neither.
\<close>

theorem ranking_top_five:
  assumes "summarize_income_statement R (JObj kv) = Inr s"
  shows "\<exists>inc exp.
           top_income s = take 5 inc \<and> top_expenses s = take 5 exp
         \<and> mset inc = mset [c \<leftarrow> collect_all R kv. fgt (cat_value c) (Num 0)]
         \<and> sorted_wrt (\<lambda>a b. fge (cat_value a) (cat_value b)) inc
         \<and> (\<forall>k. [c \<leftarrow> inc. cat_value c = k]
                = [c \<leftarrow> collect_all R kv. fgt (cat_value c) (Num 0) \<and> cat_value c = k])
         \<and> mset exp = mset [c \<leftarrow> collect_all R kv. flt (cat_value c) (Num 0)]
         \<and> sorted_wrt (\<lambda>a b. fge (fabs (cat_value a)) (fabs (cat_value b))) exp
         \<and> (\<forall>k. [c \<leftarrow> exp. fabs (cat_value c) = k]
                = [c \<leftarrow> collect_all R kv. flt (cat_value c) (Num 0) \<and> fabs (cat_value c) = k])
         \<and> (\<forall>c \<in> set (top_income s). fgt (cat_value c) (Num 0))
         \<and> (\<forall>c \<in> set (top_expenses s). flt (cat_value c) (Num 0))"
proof -
  let ?cats = "collect_all R kv"
  let ?pos = "[c \<leftarrow> ?cats. fgt (cat_value c) (Num 0)]"
  let ?neg = "[c \<leftarrow> ?cats. flt (cat_value c) (Num 0)]"
  let ?inc = "sorted_reverse cat_value ?pos"
  let ?exp = "sorted_reverse (\<lambda>x. fabs (cat_value x)) ?neg"
  from summarize_result[OF assms]
  have s: "top_income s = take 5 ?inc" "top_expenses s = take 5 ?exp"
    by (simp_all add: rank_income_eq rank_expenses_eq)
  have pos: "\<forall>c \<in> set ?pos. cat_value c \<noteq> NaN"
    by (auto simp: fgt_def dest: flt_not_NaN)
  have neg: "\<forall>c \<in> set ?neg. fabs (cat_value c) \<noteq> NaN"
    by (auto dest: flt_not_NaN)
  have 1: "mset ?inc = mset ?pos" by (rule mset_sorted_reverse)
  have 2: "sorted_wrt (\<lambda>a b. fge (cat_value a) (cat_value b)) ?inc"
    using pos by (rule descending_sorted_reverse)
  have 3: "\<forall>k. [c \<leftarrow> ?inc. cat_value c = k]
             = [c \<leftarrow> ?cats. fgt (cat_value c) (Num 0) \<and> cat_value c = k]"
    by (simp add: stable_sorted_reverse)
  have 4: "mset ?exp = mset ?neg" by (rule mset_sorted_reverse)
  have 5: "sorted_wrt (\<lambda>a b. fge (fabs (cat_value a)) (fabs (cat_value b))) ?exp"
    using neg by (rule descending_sorted_reverse)
  have 6: "\<forall>k. [c \<leftarrow> ?exp. fabs (cat_value c) = k]
             = [c \<leftarrow> ?cats. flt (cat_value c) (Num 0) \<and> fabs (cat_value c) = k]"
    by (simp add: stable_sorted_reverse)
  have 7: "\<forall>c \<in> set (top_income s). fgt (cat_value c) (Num 0)"
    using s(1) by (auto dest!: in_set_takeD simp: set_sorted_reverse)
  have 8: "\<forall>c \<in> set (top_expenses s). flt (cat_value c) (Num 0)"
    using s(2) by (auto dest!: in_set_takeD simp: set_sorted_reverse)
  from s 1 2 3 4 5 6 7 8 show ?thesis by blast
qed

theorem ranking_top_five_witness:
  "summarize_income_statement example_runtime (JObj seven_positive) =
     Inr \<lparr>summary_notes = reading_tips,
          totals = \<lparr>income = None, expenses = None, net_profit = None\<rparr>,
          top_income =
            [\<lparr>cat_name = ''b'', cat_value = Num 7\<rparr>, \<lparr>cat_name = ''d'', cat_value = Num 7\<rparr>,
             \<lparr>cat_name = ''i'', cat_value = Num 6\<rparr>, \<lparr>cat_name = ''f'', cat_value = Num 5\<rparr>,
             \<lparr>cat_name = ''a'', cat_value = Num 3\<rparr>],
          top_expenses = [\<lparr>cat_name = ''g'', cat_value = Num (- 2)\<rparr>]\<rparr>
   \<and> (\<exists>inc. [\<lparr>cat_name = ''b'', cat_value = Num 7\<rparr>, \<lparr>cat_name = ''d'', cat_value = Num 7\<rparr>,
              \<lparr>cat_name = ''i'', cat_value = Num 6\<rparr>, \<lparr>cat_name = ''f'', cat_value = Num 5\<rparr>,
              \<lparr>cat_name = ''a'', cat_value = Num 3\<rparr>] = take 5 inc
          \<and> mset inc = mset [c \<leftarrow> collect_all example_runtime seven_positive.
                                  fgt (cat_value c) (Num 0)]
          \<and> sorted_wrt (\<lambda>a b. fge (cat_value a) (cat_value b)) inc)"
  using ranking_top_five[OF seven_eval] seven_eval by auto

subsection \<open>C8: numeric coercion\<close>

text \<open>
  C8. Numeric coercion returns a float or \<open>None\<close> for every value and for absence
  (\<open>JNull\<close>), whatever \<^verbatim>\<open>float\<close> raises; a float it produced is coerced to itself;
  a value on which \<^verbatim>\<open>float\<close> raises (absence, a list, a dict among them) is coerced
  to \<open>None\<close>.
\<close>

theorem num_total_idempotent:
  "(num R x = None \<or> (\<exists>v. num R x = Some v \<and> num R (JFloat v) = Some v))
   \<and> num R (JFloat v') = Some v'
   \<and> (py_float R x = Inl e \<longrightarrow> num R x = None)
   \<and> num R JNull = None \<and> num R (JArr xs) = None \<and> num R (JObj kv) = None"
  by (cases "py_float R x") (simp_all add: num_def)

theorem num_total_idempotent_witness:
  "num example_runtime (JStr ''12'') = Some (Num 12)
   \<and> num example_runtime (JFloat (Num 12)) = Some (Num 12)
   \<and> py_float example_runtime (JStr ''abc'') = Inl ValueError
   \<and> num example_runtime (JStr ''abc'') = None"
proof -
  have a: "num example_runtime (JStr ''12'') = Some (Num 12)"
    by (simp add: num_def example_runtime_def example_float_of_str_def digits_value_def)
  have b: "py_float example_runtime (JStr ''abc'') = Inl ValueError"
    by (simp add: example_runtime_def example_float_of_str_def digits_value_def)
  from num_total_idempotent[of example_runtime "JStr ''12''" "Num 12" ValueError "[]" "[]"] a
  have c: "num example_runtime (JFloat (Num 12)) = Some (Num 12)" by simp
  from num_total_idempotent[of example_runtime "JStr ''abc''" "Num 12" ValueError "[]" "[]"] b
  have d: "num example_runtime (JStr ''abc'') = None" by simp
  from a b c d show ?thesis by simp
qed

subsection \<open>C9: the raw body in the result\<close>



subsection \<open>C10: booleans as numbers\<close>

text \<open>
  C10, as amended. Numeric coercion takes \<^verbatim>\<open>True\<close> to 1.0 and \<^verbatim>\<open>False\<close> to 0.0. A
  dict node whose name resolves and whose one value key among \<^verbatim>\<open>balance\<close>,
  \<^verbatim>\<open>amount\<close>, \<^verbatim>\<open>value\<close>, \<^verbatim>\<open>total\<close> holds \<^verbatim>\<open>True\<close> records an entry of value 1.0;
  when the node is the value, or an element of the list, under one of the five category
  keys of the body, that entry is among the collected ones. A collected entry of value
  1.0 is in \<open>top_income\<close> of the summary unless \<open>top_income\<close> has five entries of
  value 1.0 or more; it is there whenever at most five collected entries have a value
  above 0.
\<close>

theorem bool_coercion:
  "num (R :: 'a::{linorder,zero_less_one,abs} runtime) (JBool True) = Some (Num 1)
   \<and> num R (JBool False) = Some (Num 0)
   \<and> (k \<in> set [''balance'', ''amount'', ''value'', ''total'']
        \<and> dict_get kv k = JBool True
        \<and> (\<forall>k' \<in> set [''balance'', ''amount'', ''value'', ''total''].
              k' \<noteq> k \<longrightarrow> dict_get kv k' = JNull)
        \<and> node_name kv \<noteq> JNull
      \<longrightarrow> node_entry R kv = [\<lparr>cat_name = py_str R (node_name kv), cat_value = Num 1\<rparr>]
          \<and> (\<exists>rest. collect_categories R (JObj kv) cats
                 = cats @ \<lparr>cat_name = py_str R (node_name kv), cat_value = Num 1\<rparr> # rest)
          \<and> (key \<in> set [''children'', ''accounts'', ''items'', ''tree'', ''data'']
                \<and> has_key data key
                \<and> (dict_get data key = JObj kv
                     \<or> (\<exists>cs. dict_get data key = JArr cs \<and> JObj kv \<in> set cs))
              \<longrightarrow> \<lparr>cat_name = py_str R (node_name kv), cat_value = Num 1\<rparr>
                    \<in> set (collect_all R data)))
   \<and> (summarize_income_statement R (JObj data) = Inr s
        \<and> e \<in> set (collect_all R data) \<and> cat_value e = Num 1
      \<longrightarrow> (e \<in> set (top_income s)
           \<or> (length (top_income s) = 5
              \<and> (\<forall>c \<in> set (top_income s). fge (cat_value c) (Num 1))))
          \<and> (length [c \<leftarrow> collect_all R data. fgt (cat_value c) (Num 0)] \<le> 5
              \<longrightarrow> e \<in> set (top_income s)))"
proof -
  let ?e = "\<lparr>cat_name = py_str R (node_name kv), cat_value = Num 1\<rparr>"
  have 1: "num R (JBool True) = Some (Num 1)" "num R (JBool False) = Some (Num 0)"
    by (simp_all add: num_def)
  have 3: "node_entry R kv = [?e]"
    if "k \<in> set [''balance'', ''amount'', ''value'', ''total'']"
      "dict_get kv k = JBool True"
      "\<forall>k' \<in> set [''balance'', ''amount'', ''value'', ''total''].
              k' \<noteq> k \<longrightarrow> dict_get kv k' = JNull"
      "node_name kv \<noteq> JNull"
  proof -
    have "node_val R kv = Some (Num 1)"
      using that(1,2,3) by (auto simp: node_val_def truthy_True_chain 1)
    then show ?thesis using that(4) by (simp add: node_entry_def)
  qed
  have 4: "(e \<in> set (top_income s)
           \<or> (length (top_income s) = 5
              \<and> (\<forall>c \<in> set (top_income s). fge (cat_value c) (Num 1))))
          \<and> (length [c \<leftarrow> collect_all R data. fgt (cat_value c) (Num 0)] \<le> 5
              \<longrightarrow> e \<in> set (top_income s))"
    if "summarize_income_statement R (JObj data) = Inr s"
      "e \<in> set (collect_all R data)" "cat_value e = Num 1"
  proof -
    from summarize_result[OF that(1)]
    have t: "top_income s = rank_income (collect_all R data)" by simp
    have p: "fgt (cat_value e) (Num 0)" using that(3) by (simp add: fgt_def)
    from rank_income_eligible[OF that(2) p] show ?thesis
      unfolding t that(3) by blast
  qed
  have 5: "?e \<in> set (collect_all R data)"
    if "node_entry R kv = [?e]"
      "key \<in> set [''children'', ''accounts'', ''items'', ''tree'', ''data'']"
      "has_key data key"
      "dict_get data key = JObj kv \<or> (\<exists>cs. dict_get data key = JArr cs \<and> JObj kv \<in> set cs)"
    using collected_from_child[OF that(2,3,4), of R] that(1) by simp
  have 6: "\<exists>rest. collect_categories R (JObj kv) cats = cats @ ?e # rest"
    if "node_entry R kv = [?e]"
    using collect_categories_dict_prefix[of R kv cats] that by simp
  show ?thesis
    by (intro conjI impI; (elim conjE)?) (rule 1 3 4[THEN conjunct1] 4[THEN conjunct2, rule_format]
         5 6; (rule 3)?; assumption)+
qed

theorem bool_coercion_witness:
  "dict_get bonus_node ''balance'' = JBool True
   \<and> node_entry example_runtime bonus_node = [\<lparr>cat_name = ''Bonus'', cat_value = Num 1\<rparr>]
   \<and> (\<exists>rest. collect_categories example_runtime (JObj bonus_node) []
              = \<lparr>cat_name = ''Bonus'', cat_value = Num 1\<rparr> # rest)
   \<and> summarize_income_statement example_runtime (JObj bonus_body) =
       Inr \<lparr>summary_notes = reading_tips,
            totals = \<lparr>income = None, expenses = None, net_profit = None\<rparr>,
            top_income = [\<lparr>cat_name = ''Bonus'', cat_value = Num 1\<rparr>],
            top_expenses = []\<rparr>
   \<and> \<lparr>cat_name = ''Bonus'', cat_value = Num 1\<rparr> \<in> set (collect_all example_runtime bonus_body)
   \<and> \<lparr>cat_name = ''Bonus'', cat_value = Num 1\<rparr>
       \<in> set (top_income \<lparr>summary_notes = reading_tips,
            totals = \<lparr>income = None, expenses = None, net_profit = None\<rparr>,
            top_income = [\<lparr>cat_name = ''Bonus'', cat_value = Num (1::real)\<rparr>],
            top_expenses = []\<rparr>)"
proof -
  let ?e = "\<lparr>cat_name = ''Bonus'', cat_value = Num (1::real)\<rparr>"
  let ?s = "\<lparr>summary_notes = reading_tips,
            totals = \<lparr>income = None, expenses = None, net_profit = None\<rparr>,
            top_income = [?e], top_expenses = []\<rparr>"
  have a: "dict_get bonus_node ''balance'' = JBool True"
    "\<forall>k' \<in> set [''balance'', ''amount'', ''value'', ''total''].
       k' \<noteq> ''balance'' \<longrightarrow> dict_get bonus_node k' = JNull"
    "node_name bonus_node \<noteq> JNull" "py_str example_runtime (node_name bonus_node) = ''Bonus''"
    by (simp_all add: bonus_node_def dict_get_def node_name_def py_or_def py_str_def)
  have c: "has_key bonus_body ''children''"
    "dict_get bonus_body ''children'' = JArr [JObj bonus_node]"
    by (simp_all add: bonus_body_def has_key_def dict_get_def)
  note inst = bool_coercion[where R = example_runtime and k = "''balance''" and kv = bonus_node
      and cats = "[]" and key = "''children''" and data = bonus_body and s = ?s and e = ?e]
  from inst a c have node: "node_entry example_runtime bonus_node = [?e]"
    "\<exists>rest. collect_categories example_runtime (JObj bonus_node) [] = ?e # rest"
    "?e \<in> set (collect_all example_runtime bonus_body)"
    by simp_all
  have "length [c \<leftarrow> collect_all example_runtime bonus_body. fgt (cat_value c) (Num 0)] \<le> 5"
    by (simp add: bonus_collected)
  with inst node(3) bonus_eval have "?e \<in> set (top_income ?s)" by simp
  with a(1) node bonus_eval show ?thesis by simp
qed

text \<open>
  The claim as stated fails: a node without a name whose one value key holds \<^verbatim>\<open>True\<close>
  records nothing (line 105 asks for a name), and \<open>top_income\<close> stays empty.
\<close>

theorem nameless_true_not_recorded:
  "collect_categories example_runtime (JObj [(''balance'', JBool True)]) [] = []
   \<and> map_sum id top_income
       (summarize_income_statement example_runtime
          (JObj [(''children'', JArr [JObj [(''balance'', JBool True)]])]))
     = Inr []"
  by code_simp

end
